theory Spec2Isabelle
  imports Complex_Main
begin

section \<open>JavaScript numbers\<close>

text \<open>
  The chart component computes with JavaScript numbers. The model keeps the special
  values of that type, because the component reaches them (a zero total makes
  \<^verbatim>\<open>item.amount / total\<close> either \<^verbatim>\<open>NaN\<close> or an infinity). The operations
  of this section return the exact real result on finite operands; they serve for the
  properties that do not depend on how a double rounds or overflows (which branch is
  taken, which value is \<^verbatim>\<open>NaN\<close>, which fields a record gets). The arithmetic of
  doubles proper, with rounding and overflow, is the subject of a later section and is
  what the property on the sum of the angular spans is stated with. There is one zero,
  which divides like \<^verbatim>\<open>+0\<close>; every divisor of the component is either a non-zero
  literal or \<^verbatim>\<open>total\<close>, a sum that starts from the literal \<^verbatim>\<open>0\<close> and so
  is never \<^verbatim>\<open>-0\<close>.
\<close>

datatype jsnum = Fin real | PInf | NInf | NaN

fun jneg :: "jsnum \<Rightarrow> jsnum" where
  "jneg (Fin a) = Fin (- a)"
| "jneg PInf = NInf"
| "jneg NInf = PInf"
| "jneg NaN = NaN"

fun jadd :: "jsnum \<Rightarrow> jsnum \<Rightarrow> jsnum" where
  "jadd NaN _ = NaN"
| "jadd _ NaN = NaN"
| "jadd (Fin a) (Fin b) = Fin (a + b)"
| "jadd PInf NInf = NaN"
| "jadd NInf PInf = NaN"
| "jadd PInf _ = PInf"
| "jadd _ PInf = PInf"
| "jadd NInf _ = NInf"
| "jadd _ NInf = NInf"

definition jsub :: "jsnum \<Rightarrow> jsnum \<Rightarrow> jsnum" where
  "jsub a b = jadd a (jneg b)"

fun jmul :: "jsnum \<Rightarrow> jsnum \<Rightarrow> jsnum" where
  "jmul NaN _ = NaN"
| "jmul _ NaN = NaN"
| "jmul (Fin a) (Fin b) = Fin (a * b)"
| "jmul (Fin a) PInf = (if a = 0 then NaN else if 0 < a then PInf else NInf)"
| "jmul (Fin a) NInf = (if a = 0 then NaN else if 0 < a then NInf else PInf)"
| "jmul PInf (Fin b) = (if b = 0 then NaN else if 0 < b then PInf else NInf)"
| "jmul NInf (Fin b) = (if b = 0 then NaN else if 0 < b then NInf else PInf)"
| "jmul PInf PInf = PInf"
| "jmul PInf NInf = NInf"
| "jmul NInf PInf = NInf"
| "jmul NInf NInf = PInf"

fun jdiv :: "jsnum \<Rightarrow> jsnum \<Rightarrow> jsnum" where
  "jdiv NaN _ = NaN"
| "jdiv _ NaN = NaN"
| "jdiv (Fin a) (Fin b) =
     (if b = 0 then (if a = 0 then NaN else if 0 < a then PInf else NInf)
      else Fin (a / b))"
| "jdiv (Fin a) PInf = Fin 0"
| "jdiv (Fin a) NInf = Fin 0"
| "jdiv PInf (Fin b) = (if 0 \<le> b then PInf else NInf)"
| "jdiv NInf (Fin b) = (if 0 \<le> b then NInf else PInf)"
| "jdiv PInf PInf = NaN"
| "jdiv PInf NInf = NaN"
| "jdiv NInf PInf = NaN"
| "jdiv NInf NInf = NaN"

fun jcos :: "jsnum \<Rightarrow> jsnum" where
  "jcos (Fin a) = Fin (cos a)"
| "jcos _ = NaN"

fun jsin :: "jsnum \<Rightarrow> jsnum" where
  "jsin (Fin a) = Fin (sin a)"
| "jsin _ = NaN"

text \<open>The comparisons \<^verbatim>\<open>>=\<close> and \<^verbatim>\<open>>\<close>: false whenever an operand is \<^verbatim>\<open>NaN\<close>.\<close>

fun jge :: "jsnum \<Rightarrow> jsnum \<Rightarrow> bool" where
  "jge NaN _ = False"
| "jge _ NaN = False"
| "jge (Fin a) (Fin b) = (b \<le> a)"
| "jge PInf _ = True"
| "jge _ NInf = True"
| "jge (Fin a) PInf = False"
| "jge NInf (Fin b) = False"
| "jge NInf PInf = False"

fun jgt :: "jsnum \<Rightarrow> jsnum \<Rightarrow> bool" where
  "jgt NaN _ = False"
| "jgt _ NaN = False"
| "jgt (Fin a) (Fin b) = (b < a)"
| "jgt PInf PInf = False"
| "jgt PInf _ = True"
| "jgt NInf _ = False"
| "jgt (Fin a) PInf = False"
| "jgt (Fin a) NInf = True"


definition jle :: "jsnum \<Rightarrow> jsnum \<Rightarrow> bool" where
  "jle a b = jge b a"

text \<open>\<^verbatim>\<open>Math.max\<close> of two numbers returns \<^verbatim>\<open>NaN\<close> as soon as one of them is.\<close>

fun jmax :: "jsnum \<Rightarrow> jsnum \<Rightarrow> jsnum" where
  "jmax NaN _ = NaN"
| "jmax _ NaN = NaN"
| "jmax a b = (if jge a b then a else b)"

fun jabs :: "jsnum \<Rightarrow> jsnum" where
  "jabs (Fin a) = Fin \<bar>a\<bar>"
| "jabs PInf = PInf"
| "jabs NInf = PInf"
| "jabs NaN = NaN"

section \<open>The donut chart component\<close>

text \<open>The input: \<^verbatim>\<open>interface PieChartData { name; amount; color }\<close>.\<close>

record PieChartData =
  name :: string
  amount :: jsnum
  color :: string

text \<open>
  The SVG path string is the join of move, arc, line and close commands, each printed
  from numbers by a template literal. The model keeps the commands with their numbers.
  An arc carries its two radii, the rotation, the large-arc flag, the sweep flag and
  the end point.
\<close>

datatype path_cmd =
    MoveTo jsnum jsnum
  | ArcTo jsnum jsnum nat nat nat jsnum jsnum
  | LineTo jsnum jsnum
  | ClosePath

text \<open>
  \<^verbatim>\<open>const total = data.reduce((sum, item) => sum + item.amount, 0)\<close>
  (named \<open>totalAmount\<close> here, \<open>total\<close> being a constant of HOL)
\<close>

definition totalAmount :: "PieChartData list \<Rightarrow> jsnum" where
  "totalAmount data = foldl (\<lambda>sum item. jadd sum (amount item)) (Fin 0) data"

definition centerX :: "jsnum \<Rightarrow> jsnum" where
  "centerX sz = jdiv sz (Fin 2)"

definition centerY :: "jsnum \<Rightarrow> jsnum" where
  "centerY sz = jdiv sz (Fin 2)"

definition radius :: "jsnum \<Rightarrow> jsnum" where
  "radius sz = jsub (jdiv sz (Fin 2)) (Fin 10)"

definition innerRadius :: "jsnum \<Rightarrow> jsnum" where
  "innerRadius sz = jmul (radius sz) (Fin (55 / 100))"

text \<open>\<^verbatim>\<open>const currentRadius = isSelected ? radius + 8 : radius\<close>\<close>

definition currentRadius :: "jsnum \<Rightarrow> bool \<Rightarrow> jsnum" where
  "currentRadius sz sel = (if sel then jadd (radius sz) (Fin 8) else radius sz)"

text \<open>The branch of \<^verbatim>\<open>createPieSlice\<close> taken for a complete circle: two semicircles outside, two inside.\<close>

definition ringPath :: "jsnum \<Rightarrow> jsnum \<Rightarrow> path_cmd list" where
  "ringPath sz cr =
     [MoveTo (centerX sz) (jsub (centerY sz) cr),
      ArcTo cr cr 0 1 1 (centerX sz) (jadd (centerY sz) cr),
      ArcTo cr cr 0 1 1 (centerX sz) (jsub (centerY sz) cr),
      MoveTo (centerX sz) (jsub (centerY sz) (innerRadius sz)),
      ArcTo (innerRadius sz) (innerRadius sz) 0 1 0 (centerX sz) (jadd (centerY sz) (innerRadius sz)),
      ArcTo (innerRadius sz) (innerRadius sz) 0 1 0 (centerX sz) (jsub (centerY sz) (innerRadius sz)),
      ClosePath]"

text \<open>The other branch: the four corners from polar coordinates, one arc outside, one inside.\<close>

definition toRad :: "jsnum \<Rightarrow> jsnum" where
  "toRad deg = jdiv (jmul deg (Fin pi)) (Fin 180)"

definition polarX :: "jsnum \<Rightarrow> jsnum \<Rightarrow> jsnum \<Rightarrow> jsnum" where
  "polarX sz r rad = jadd (centerX sz) (jmul r (jcos rad))"

definition polarY :: "jsnum \<Rightarrow> jsnum \<Rightarrow> jsnum \<Rightarrow> jsnum" where
  "polarY sz r rad = jadd (centerY sz) (jmul r (jsin rad))"

definition wedgePath :: "jsnum \<Rightarrow> jsnum \<Rightarrow> jsnum \<Rightarrow> jsnum \<Rightarrow> path_cmd list" where
  "wedgePath sz cr sa ea =
     (let startAngleRad = toRad sa;
          endAngleRad = toRad ea;
          x1 = polarX sz cr startAngleRad;
          y1 = polarY sz cr startAngleRad;
          x2 = polarX sz cr endAngleRad;
          y2 = polarY sz cr endAngleRad;
          x3 = polarX sz (innerRadius sz) endAngleRad;
          y3 = polarY sz (innerRadius sz) endAngleRad;
          x4 = polarX sz (innerRadius sz) startAngleRad;
          y4 = polarY sz (innerRadius sz) startAngleRad;
          largeArcFlag = (if jgt (jsub ea sa) (Fin 180) then 1 else 0)
      in [MoveTo x1 y1,
          ArcTo cr cr 0 largeArcFlag 1 x2 y2,
          LineTo x3 y3,
          ArcTo (innerRadius sz) (innerRadius sz) 0 largeArcFlag 0 x4 y4,
          ClosePath])"

definition createPieSlice :: "jsnum \<Rightarrow> jsnum \<Rightarrow> jsnum \<Rightarrow> string \<Rightarrow> bool \<Rightarrow> path_cmd list" where
  "createPieSlice sz sa ea col sel =
     (let angleDiff = jsub ea sa
      in if jge angleDiff (Fin (3599 / 10)) then ringPath sz (currentRadius sz sel)
         else wedgePath sz (currentRadius sz sel) sa ea)"

text \<open>
  \<^verbatim>\<open>setSelectedIndex(selectedIndex === index ? null : index); onSlicePress?.(item, index)\<close>:
  the new selection, and the arguments handed to the optional callback.
\<close>

definition handleSlicePress :: "nat option \<Rightarrow> PieChartData \<Rightarrow> nat \<Rightarrow> nat option \<times> (PieChartData \<times> nat)" where
  "handleSlicePress selectedIndex it i =
     ((if selectedIndex = Some i then None else Some i), (it, i))"

definition getSliceTouchArea :: "jsnum \<Rightarrow> jsnum \<Rightarrow> jsnum \<Rightarrow> jsnum \<times> jsnum" where
  "getSliceTouchArea sz sa ea =
     (let midAngle = jdiv (jadd sa ea) (Fin 2);
          midAngleRad = toRad midAngle;
          touchRadius = jdiv (jadd (radius sz) (innerRadius sz)) (Fin 2)
      in (polarX sz touchRadius midAngleRad, polarY sz touchRadius midAngleRad))"

text \<open>One entry of \<^verbatim>\<open>slicesData\<close>.\<close>

record slice =
  item :: PieChartData
  index :: nat
  pathData :: "path_cmd list"
  isSelected :: bool
  startAngle :: jsnum
  endAngle :: jsnum
  touchArea :: "jsnum \<times> jsnum"

text \<open>
  \<^verbatim>\<open>data.map((item, index) => ...)\<close> updates the variable \<^verbatim>\<open>currentAngle\<close>
  from one callback to the next; here it is an argument, with the index.
\<close>

fun slicesFrom :: "jsnum \<Rightarrow> jsnum \<Rightarrow> nat option \<Rightarrow> nat \<Rightarrow> jsnum \<Rightarrow> PieChartData list \<Rightarrow> slice list" where
  "slicesFrom sz tot selectedIndex i currentAngle [] = []"
| "slicesFrom sz tot selectedIndex i currentAngle (it # rest) =
     (let percentage = jdiv (amount it) tot;
          angle = jmul percentage (Fin 360);
          sa = currentAngle;
          ea = jadd currentAngle angle;
          sel = (selectedIndex = Some i)
      in \<lparr>item = it, index = i,
          pathData = createPieSlice sz sa ea (color it) sel,
          isSelected = sel, startAngle = sa, endAngle = ea,
          touchArea = getSliceTouchArea sz sa ea\<rparr>
         # slicesFrom sz tot selectedIndex (Suc i) ea rest)"

definition slicesData :: "PieChartData list \<Rightarrow> jsnum \<Rightarrow> nat option \<Rightarrow> slice list" where
  "slicesData data sz selectedIndex =
     slicesFrom sz (totalAmount data) selectedIndex 0 (Fin (- 90)) data"

text \<open>
  What the component renders from \<^verbatim>\<open>slicesData\<close>: one \<^verbatim>\<open>Path\<close> per slice,
  with \<^verbatim>\<open>opacity={selectedIndex === null || slice.isSelected ? 1 : 0.6}\<close>.
\<close>

record path_props =
  path_key :: nat
  path_d :: "path_cmd list"
  path_fill :: string
  path_opacity :: jsnum

definition renderPath :: "nat option \<Rightarrow> slice \<Rightarrow> path_props" where
  "renderPath selectedIndex s =
     \<lparr>path_key = index s, path_d = pathData s, path_fill = color (item s),
      path_opacity = (if selectedIndex = None \<or> isSelected s then Fin 1 else Fin (6 / 10))\<rparr>"

definition renderPaths :: "PieChartData list \<Rightarrow> jsnum \<Rightarrow> nat option \<Rightarrow> path_props list" where
  "renderPaths data sz selectedIndex = map (renderPath selectedIndex) (slicesData data sz selectedIndex)"

text \<open>
  One invisible \<^verbatim>\<open>Pressable\<close> per slice, a square of side
  \<^verbatim>\<open>touchSize = Math.max(60, (angleSpan / 360) * size)\<close> placed around the touch point.
\<close>

record overlay =
  overlay_index :: nat
  overlay_left :: jsnum
  overlay_top :: jsnum
  overlay_width :: jsnum
  overlay_height :: jsnum

definition touchSize :: "jsnum \<Rightarrow> slice \<Rightarrow> jsnum" where
  "touchSize sz s =
     (let angleSpan = jsub (endAngle s) (startAngle s)
      in jmax (Fin 60) (jmul (jdiv angleSpan (Fin 360)) sz))"

definition touchOverlay :: "jsnum \<Rightarrow> slice \<Rightarrow> overlay" where
  "touchOverlay sz s =
     \<lparr>overlay_index = index s,
      overlay_left = jsub (fst (touchArea s)) (jdiv (touchSize sz s) (Fin 2)),
      overlay_top = jsub (snd (touchArea s)) (jdiv (touchSize sz s) (Fin 2)),
      overlay_width = touchSize sz s,
      overlay_height = touchSize sz s\<rparr>"

definition touchOverlays :: "PieChartData list \<Rightarrow> jsnum \<Rightarrow> nat option \<Rightarrow> overlay list" where
  "touchOverlays data sz selectedIndex = map (touchOverlay sz) (slicesData data sz selectedIndex)"

text \<open>
  \<^verbatim>\<open>const selectedItem = selectedIndex !== null ? data[selectedIndex] : null\<close>.
  Reading a JavaScript array beyond its length gives \<^verbatim>\<open>undefined\<close>, which the
  label's test \<^verbatim>\<open>selectedItem ? ... : ...\<close> treats like \<^verbatim>\<open>null\<close>.
\<close>

definition selectedItem :: "PieChartData list \<Rightarrow> nat option \<Rightarrow> PieChartData option" where
  "selectedItem data selectedIndex =
     (case selectedIndex of
        None \<Rightarrow> None
      | Some i \<Rightarrow> (if i < length data then Some (data ! i) else None))"

text \<open>
  The centre label shows three texts for a selected item and two fixed texts otherwise.
  \<^verbatim>\<open>Number.prototype.toLocaleString\<close> and \<^verbatim>\<open>toFixed\<close> belong to the
  JavaScript runtime and are parameters here. The rupee sign is written as its UTF-8 bytes.
\<close>

datatype center_label =
    Detail string string string
  | Aggregate string string

definition rupee :: string where
  "rupee = [CHR 0xE2, CHR 0x82, CHR 0xB9]"

definition centerLabel ::
  "(jsnum \<Rightarrow> string \<Rightarrow> string) \<Rightarrow> (jsnum \<Rightarrow> nat \<Rightarrow> string) \<Rightarrow> PieChartData list \<Rightarrow> nat option \<Rightarrow> center_label" where
  "centerLabel toLocaleString toFixed data selectedIndex =
     (case selectedItem data selectedIndex of
        Some it \<Rightarrow>
          Detail (name it)
                 (rupee @ toLocaleString (amount it) ''en-IN'')
                 (toFixed (jmul (jdiv (amount it) (totalAmount data)) (Fin 100)) 1 @ ''%'')
      | None \<Rightarrow> Aggregate ''Total'' ''Expenses'')"

section \<open>The arithmetic of doubles\<close>

text \<open>\<^verbatim>\<open>Number.isFinite\<close>: neither \<^verbatim>\<open>NaN\<close> nor an infinity.\<close>

fun isFinite :: "jsnum \<Rightarrow> bool" where
  "isFinite (Fin a) = True"
| "isFinite _ = False"

text \<open>
  A double operation returns the exact result rounded to the nearest double, and an
  infinity when the rounded result lies beyond the largest double. The rounded sum,
  product and quotient of two reals are the parameters \<open>fadd\<close>, \<open>fmul\<close> and
  \<open>fdiv\<close>; \<open>exactArith\<close> is the instance that does not round.
\<close>

record fparith =
  fadd :: "real \<Rightarrow> real \<Rightarrow> real"
  fmul :: "real \<Rightarrow> real \<Rightarrow> real"
  fdiv :: "real \<Rightarrow> real \<Rightarrow> real"

definition exactArith :: fparith where
  "exactArith = \<lparr>fadd = (\<lambda>x y. x + y), fmul = (\<lambda>x y. x * y), fdiv = (\<lambda>x y. x / y)\<rparr>"

text \<open>
  The standard model of floating-point arithmetic, which the operations of IEEE 754
  doubles satisfy on doubles: a rounded result differs from the exact one by at most the
  relative error \<open>2\<^sup>-\<^sup>5\<^sup>3\<close>, and a product or quotient that underflows by at most
  \<open>2\<^sup>-\<^sup>1\<^sup>0\<^sup>7\<^sup>5\<close> in addition. The largest double is \<open>2\<^sup>1\<^sup>0\<^sup>2\<^sup>4 - 2\<^sup>9\<^sup>7\<^sup>1\<close>.
\<close>

definition unitRoundoff :: real where
  "unitRoundoff = 1 / 2 ^ 53"

definition underflowUnit :: real where
  "underflowUnit = 1 / 2 ^ 1075"

definition maxDouble :: real where
  "maxDouble = 2 ^ 1024 - 2 ^ 971"

definition standardModel :: "fparith \<Rightarrow> bool" where
  "standardModel ar \<longleftrightarrow>
     (\<forall>x y. \<bar>fadd ar x y - (x + y)\<bar> \<le> unitRoundoff * \<bar>x + y\<bar>) \<and>
     (\<forall>x y. \<bar>fmul ar x y - x * y\<bar> \<le> unitRoundoff * \<bar>x * y\<bar> + underflowUnit) \<and>
     (\<forall>x y. y \<noteq> 0 \<longrightarrow> \<bar>fdiv ar x y - x / y\<bar> \<le> unitRoundoff * \<bar>x / y\<bar> + underflowUnit)"

text \<open>
  The operations on JavaScript numbers built from them. On the special values they
  are the operations of the first section.
\<close>

definition overflowTo :: "real \<Rightarrow> jsnum" where
  "overflowTo r = (if maxDouble < r then PInf else if r < - maxDouble then NInf else Fin r)"

fun addR :: "fparith \<Rightarrow> jsnum \<Rightarrow> jsnum \<Rightarrow> jsnum" where
  "addR ar (Fin a) (Fin b) = overflowTo (fadd ar a b)"
| "addR ar a b = jadd a b"

fun mulR :: "fparith \<Rightarrow> jsnum \<Rightarrow> jsnum \<Rightarrow> jsnum" where
  "mulR ar (Fin a) (Fin b) = overflowTo (fmul ar a b)"
| "mulR ar a b = jmul a b"

fun divR :: "fparith \<Rightarrow> jsnum \<Rightarrow> jsnum \<Rightarrow> jsnum" where
  "divR ar (Fin a) (Fin b) = (if b = 0 then jdiv (Fin a) (Fin b) else overflowTo (fdiv ar a b))"
| "divR ar a b = jdiv a b"

text \<open>
  The total and the \<^verbatim>\<open>startAngle\<close> and \<^verbatim>\<open>endAngle\<close> of every slice, as
  \<^verbatim>\<open>reduce\<close> and the callback of \<^verbatim>\<open>data.map\<close> compute them, in the arithmetic
  of doubles.
\<close>

definition totalR :: "fparith \<Rightarrow> PieChartData list \<Rightarrow> jsnum" where
  "totalR ar data = foldl (\<lambda>sum item. addR ar sum (amount item)) (Fin 0) data"

fun anglesFromR :: "fparith \<Rightarrow> jsnum \<Rightarrow> jsnum \<Rightarrow> PieChartData list \<Rightarrow> (jsnum \<times> jsnum) list" where
  "anglesFromR ar tot currentAngle [] = []"
| "anglesFromR ar tot currentAngle (it # rest) =
     (let percentage = divR ar (amount it) tot;
          angle = mulR ar percentage (Fin 360);
          sa = currentAngle;
          ea = addR ar currentAngle angle
      in (sa, ea) # anglesFromR ar tot ea rest)"

definition anglesR :: "fparith \<Rightarrow> PieChartData list \<Rightarrow> (jsnum \<times> jsnum) list" where
  "anglesR ar data = anglesFromR ar (totalR ar data) (Fin (- 90)) data"

text \<open>
  The sum of the angular spans \<^verbatim>\<open>endAngle - startAngle\<close> of a list of angle pairs,
  taken exactly.
\<close>

definition spanSumR :: "(jsnum \<times> jsnum) list \<Rightarrow> jsnum" where
  "spanSumR xs = foldl (\<lambda>acc p. jadd acc (jsub (snd p) (fst p))) (Fin 0) xs"


section \<open>Facts about the slice list\<close>

lemma length_slicesFrom: "length (slicesFrom sz tot sel i c ps) = length ps"
  by (induction ps arbitrary: i c) (simp_all add: Let_def)

lemma slicesFrom_nth_fields:
  "k < length ps \<Longrightarrow>
     index (slicesFrom sz tot sel i c ps ! k) = i + k \<and>
     item (slicesFrom sz tot sel i c ps ! k) = ps ! k \<and>
     isSelected (slicesFrom sz tot sel i c ps ! k) = (sel = Some (i + k))"
proof (induction ps arbitrary: i c k)
  case Nil
  then show ?case by simp
next
  case (Cons p ps)
  show ?case
  proof (cases k)
    case 0
    then show ?thesis by (simp add: Let_def)
  next
    case (Suc m)
    with Cons.prems have "m < length ps" by simp
    from Cons.IH[OF this, of "Suc i"] Suc show ?thesis by (simp add: Let_def)
  qed
qed

lemma slicesFrom_nth_geometry:
  "k < length ps \<Longrightarrow>
     pathData (slicesFrom sz tot sel i c ps ! k) =
       createPieSlice sz (startAngle (slicesFrom sz tot sel i c ps ! k))
         (endAngle (slicesFrom sz tot sel i c ps ! k)) (color (ps ! k)) (sel = Some (i + k)) \<and>
     touchArea (slicesFrom sz tot sel i c ps ! k) =
       getSliceTouchArea sz (startAngle (slicesFrom sz tot sel i c ps ! k))
         (endAngle (slicesFrom sz tot sel i c ps ! k)) \<and>
     endAngle (slicesFrom sz tot sel i c ps ! k) =
       jadd (startAngle (slicesFrom sz tot sel i c ps ! k))
         (jmul (jdiv (amount (ps ! k)) tot) (Fin 360))"
proof (induction ps arbitrary: i c k)
  case Nil
  then show ?case by simp
next
  case (Cons p ps)
  show ?case
  proof (cases k)
    case 0
    then show ?thesis by (simp add: Let_def)
  next
    case (Suc m)
    with Cons.prems have "m < length ps" by simp
    from Cons.IH[OF this, of "Suc i"] Suc show ?thesis by (simp add: Let_def)
  qed
qed

lemma slicesFrom_start_hd:
  "ps \<noteq> [] \<Longrightarrow> startAngle (slicesFrom sz tot sel i c ps ! 0) = c"
  by (cases ps) (simp_all add: Let_def)

lemma slicesFrom_contiguous:
  "Suc k < length ps \<Longrightarrow>
     startAngle (slicesFrom sz tot sel i c ps ! Suc k) = endAngle (slicesFrom sz tot sel i c ps ! k)"
proof (induction ps arbitrary: i c k)
  case Nil
  then show ?case by simp
next
  case (Cons p ps)
  show ?case
  proof (cases k)
    case 0
    with Cons.prems obtain q qs where "ps = q # qs" by (cases ps) auto
    with 0 show ?thesis by (simp add: Let_def)
  next
    case (Suc m)
    with Cons.prems have "Suc m < length ps" by simp
    from Cons.IH[OF this, of "Suc i"] Suc show ?thesis by (simp add: Let_def)
  qed
qed

lemma slicesFrom_angles_sel:
  "map startAngle (slicesFrom sz tot s1 i c ps) = map startAngle (slicesFrom sz tot s2 j c ps) \<and>
   map endAngle (slicesFrom sz tot s1 i c ps) = map endAngle (slicesFrom sz tot s2 j c ps)"
  by (induction ps arbitrary: i j c) (simp_all add: Let_def)

lemma no_selected_after:
  "sel = Some i \<Longrightarrow> i < j \<Longrightarrow> filter isSelected (slicesFrom sz tot sel j c ps) = []"
  by (induction ps arbitrary: j c) (simp_all add: Let_def)

lemma no_selected_None:
  "filter isSelected (slicesFrom sz tot None j c ps) = []"
  by (induction ps arbitrary: j c) (simp_all add: Let_def)

lemma at_most_one_selected:
  "length (filter isSelected (slicesFrom sz tot sel j c ps)) \<le> 1"
proof (induction ps arbitrary: j c)
  case Nil
  then show ?case by simp
next
  case (Cons p ps)
  show ?case
  proof (cases "sel = Some j")
    case True
    then show ?thesis using no_selected_after[of sel j "Suc j"] by (simp add: Let_def)
  next
    case False
    then show ?thesis using Cons.IH by (simp add: Let_def)
  qed
qed

section \<open>Selection\<close>

text \<open>
  Claim C7. Tapping slice \<open>i\<close> in selection state \<open>S\<close> deselects when \<open>S\<close> is already
  \<open>i\<close> and selects \<open>i\<close> otherwise, replacing any earlier selection; in particular a tap
  on 2 from no selection selects 2, a second tap on 2 deselects, and a tap on 5 while 2
  is selected selects 5. After any tap at most one slice of the chart is marked selected.
\<close>

theorem selection_toggle:
  "fst (handleSlicePress S it i) = (if S = Some i then None else Some i) \<and>
   fst (handleSlicePress None it 2) = Some 2 \<and>
   fst (handleSlicePress (Some 2) it 2) = None \<and>
   fst (handleSlicePress (Some 2) it 5) = Some 5 \<and>
   length (filter isSelected (slicesData data sz (fst (handleSlicePress S it i)))) \<le> 1"
  using at_most_one_selected[of sz "totalAmount data" "fst (handleSlicePress S it i)" 0 "Fin (- 90)" data]
  by (simp add: handleSlicePress_def slicesData_def)

theorem selection_toggle_witness:
  "fst (handleSlicePress (Some 2) \<lparr>name = ''Cement'', amount = Fin 100, color = ''#f00''\<rparr> 5) = Some 5 \<and>
   length (filter isSelected
     (slicesData [\<lparr>name = ''Cement'', amount = Fin 100, color = ''#f00''\<rparr>] (Fin 240)
        (fst (handleSlicePress (Some 2) \<lparr>name = ''Cement'', amount = Fin 100, color = ''#f00''\<rparr> 5)))) \<le> 1"
  using selection_toggle[of "Some 2" "\<lparr>name = ''Cement'', amount = Fin 100, color = ''#f00''\<rparr>" 5
      "[\<lparr>name = ''Cement'', amount = Fin 100, color = ''#f00''\<rparr>]" "Fin 240"]
  by (simp add: handleSlicePress_def)



lemma slicesFrom_sel_out_of_range:
  "i + length ps \<le> n \<Longrightarrow> slicesFrom sz tot (Some n) i c ps = slicesFrom sz tot None i c ps"
  by (induction ps arbitrary: i c) (simp_all add: Let_def)

text \<open>
  Claim C10. When the stored index lies beyond the end of the data, the lookup of the
  selected item finds nothing, the centre label is the aggregate caption, the same as
  with no selection, and the slices are computed as with no selection.
\<close>

theorem stale_selection_falls_back:
  "length data \<le> i \<Longrightarrow>
     selectedItem data (Some i) = None \<and>
     centerLabel toLocaleString toFixed data (Some i) = Aggregate ''Total'' ''Expenses'' \<and>
     centerLabel toLocaleString toFixed data (Some i) = centerLabel toLocaleString toFixed data None \<and>
     slicesData data sz (Some i) = slicesData data sz None"
  using slicesFrom_sel_out_of_range[of 0 data i sz "totalAmount data" "Fin (- 90)"]
  by (simp add: centerLabel_def selectedItem_def slicesData_def)

theorem stale_selection_falls_back_witness:
  "length [\<lparr>name = ''A'', amount = Fin 100, color = ''#f00''\<rparr>] \<le> (3::nat) \<and>
   selectedItem [\<lparr>name = ''A'', amount = Fin 100, color = ''#f00''\<rparr>] (Some 3) = None \<and>
   centerLabel (\<lambda>n l. ''100'') (\<lambda>n k. ''100.0'')
     [\<lparr>name = ''A'', amount = Fin 100, color = ''#f00''\<rparr>] (Some 3) = Aggregate ''Total'' ''Expenses''"
  using stale_selection_falls_back[of "[\<lparr>name = ''A'', amount = Fin 100, color = ''#f00''\<rparr>]" 3
      "\<lambda>n l. ''100''" "\<lambda>n k. ''100.0''" "Fin 240"]
  by simp

section \<open>The path builder\<close>




lemma foldl_zero_amounts:
  "\<forall>q \<in> set zs. amount q = Fin 0 \<Longrightarrow>
     foldl (\<lambda>sum item. jadd sum (amount item)) (Fin s) zs = Fin s"
  by (induction zs) simp_all

lemma total_single_share:
  assumes "\<forall>q \<in> set zs1 \<union> set zs2. amount q = Fin 0" and "amount p = Fin a"
  shows "totalAmount (zs1 @ p # zs2) = Fin a"
proof -
  have 1: "\<forall>q \<in> set zs1. amount q = Fin 0" and 2: "\<forall>q \<in> set zs2. amount q = Fin 0"
    using assms(1) by auto
  show ?thesis
    using foldl_zero_amounts[OF 1, of 0] foldl_zero_amounts[OF 2, of a] assms(2)
    by (simp add: totalAmount_def)
qed

lemma start_after_zero_amounts:
  assumes "\<forall>q \<in> set zs. amount q = Fin 0" and "t \<noteq> 0"
  shows "k \<le> length zs \<Longrightarrow>
     startAngle (slicesFrom sz (Fin t) sel i (Fin c) (zs @ p # rest) ! k) = Fin c"
proof (induction k)
  case 0
  then show ?case using slicesFrom_start_hd[of "zs @ p # rest"] by simp
next
  case (Suc k)
  let ?ss = "slicesFrom sz (Fin t) sel i (Fin c) (zs @ p # rest)"
  from Suc.prems have k: "k < length zs" by simp
  then have "Suc k < length (zs @ p # rest)" by simp
  then have "startAngle (?ss ! Suc k) = endAngle (?ss ! k)"
    by (rule slicesFrom_contiguous)
  also have "\<dots> = jadd (startAngle (?ss ! k)) (jmul (jdiv (amount ((zs @ p # rest) ! k)) (Fin t)) (Fin 360))"
    using slicesFrom_nth_geometry[of k "zs @ p # rest" sz "Fin t" sel i "Fin c"] k by simp
  also have "amount ((zs @ p # rest) ! k) = Fin 0"
    using assms(1) k by (simp add: nth_append)
  also have "startAngle (?ss ! k) = Fin c"
    using Suc.IH k by simp
  finally show ?case using assms(2) by simp
qed

lemma single_share_is_ring:
  assumes "\<forall>q \<in> set zs1 \<union> set zs2. amount q = Fin 0" and "amount p = Fin a" and "0 < a"
  shows "pathData (slicesData (zs1 @ p # zs2) sz sel ! length zs1) =
           ringPath sz (currentRadius sz (sel = Some (length zs1)))"
proof -
  let ?data = "zs1 @ p # zs2"
  let ?ss = "slicesFrom sz (Fin a) sel 0 (Fin (- 90)) ?data"
  have tot: "totalAmount ?data = Fin a" using assms(1,2) by (rule total_single_share)
  have z1: "\<forall>q \<in> set zs1. amount q = Fin 0" using assms(1) by auto
  have a0: "a \<noteq> 0" using assms(3) by simp
  have k: "length zs1 < length ?data" by simp
  have st: "startAngle (?ss ! length zs1) = Fin (- 90)"
    using start_after_zero_amounts[OF z1 a0, of "length zs1"] by simp
  have en: "endAngle (?ss ! length zs1) = Fin 270"
    using slicesFrom_nth_geometry[OF k, of sz "Fin a" sel 0 "Fin (- 90)"] st assms(2) a0
    by simp
  have pd: "pathData (?ss ! length zs1) =
      createPieSlice sz (Fin (- 90)) (Fin 270) (color p) (sel = Some (length zs1))"
    using slicesFrom_nth_geometry[OF k, of sz "Fin a" sel 0 "Fin (- 90)"] st en by simp
  show ?thesis
    using pd tot by (simp add: slicesData_def createPieSlice_def jsub_def)
qed

lemma ring_radii_positive:
  assumes "20 < z"
  shows "jgt (innerRadius (Fin z)) (Fin 0) \<and>
         jgt (currentRadius (Fin z) sel) (innerRadius (Fin z)) \<and>
         jsub (centerY (Fin z)) (currentRadius (Fin z) sel) \<noteq>
           jadd (centerY (Fin z)) (currentRadius (Fin z) sel) \<and>
         jsub (centerY (Fin z)) (innerRadius (Fin z)) \<noteq>
           jadd (centerY (Fin z)) (innerRadius (Fin z))"
proof -
  define r where "r = z / 2 - 10"
  have r: "0 < r" using assms by (simp add: r_def)
  have rad: "radius (Fin z) = Fin r" by (simp add: radius_def jsub_def r_def)
  have inner: "innerRadius (Fin z) = Fin (r * (55 / 100))" by (simp add: innerRadius_def rad)
  have cur: "currentRadius (Fin z) sel = Fin (if sel then r + 8 else r)"
    by (simp add: currentRadius_def rad)
  have cy: "centerY (Fin z) = Fin (z / 2)" by (simp add: centerY_def)
  have lt: "r * (55 / 100) < r" using r by simp
  show ?thesis
    unfolding inner cur cy using r lt by (simp add: jsub_def)
qed

text \<open>
  Claim C3, as the component has it. When the angular span is at least 359.9 degrees
  the path is the full ring: a move to the top of the outer circle, two half-circle
  arcs with sweep flag 1 (down to the bottom and back to the top), a move to the top of
  the inner circle, two half-circle arcs with sweep flag 0, and a close. When one item
  carries the whole total and every other amount is zero, that item's path is this
  ring. For a chart size above 20 the inner radius is positive, the outer radius is
  larger, and the two ends of every half circle are different points.
\<close>

theorem full_ring_path:
  "(jge (jsub ea sa) (Fin (3599 / 10)) \<longrightarrow>
      createPieSlice sz sa ea col sel = ringPath sz (currentRadius sz sel)) \<and>
   ringPath sz cr =
     [MoveTo (centerX sz) (jsub (centerY sz) cr),
      ArcTo cr cr 0 1 1 (centerX sz) (jadd (centerY sz) cr),
      ArcTo cr cr 0 1 1 (centerX sz) (jsub (centerY sz) cr),
      MoveTo (centerX sz) (jsub (centerY sz) (innerRadius sz)),
      ArcTo (innerRadius sz) (innerRadius sz) 0 1 0 (centerX sz) (jadd (centerY sz) (innerRadius sz)),
      ArcTo (innerRadius sz) (innerRadius sz) 0 1 0 (centerX sz) (jsub (centerY sz) (innerRadius sz)),
      ClosePath] \<and>
   ((\<forall>q \<in> set zs1 \<union> set zs2. amount q = Fin 0) \<and> amount p = Fin a \<and> 0 < a \<longrightarrow>
      pathData (slicesData (zs1 @ p # zs2) sz selectedIndex ! length zs1) =
        ringPath sz (currentRadius sz (selectedIndex = Some (length zs1)))) \<and>
   (20 < z \<longrightarrow>
      jgt (innerRadius (Fin z)) (Fin 0) \<and>
      jgt (currentRadius (Fin z) sel) (innerRadius (Fin z)) \<and>
      jsub (centerY (Fin z)) (currentRadius (Fin z) sel) \<noteq>
        jadd (centerY (Fin z)) (currentRadius (Fin z) sel) \<and>
      jsub (centerY (Fin z)) (innerRadius (Fin z)) \<noteq>
        jadd (centerY (Fin z)) (innerRadius (Fin z)))"
  using single_share_is_ring[of zs1 zs2 p a sz selectedIndex] ring_radii_positive[of z sel]
  by (simp add: createPieSlice_def ringPath_def)

theorem full_ring_path_witness:
  "jge (jsub (Fin 270) (Fin (- 90))) (Fin (3599 / 10)) \<and>
   createPieSlice (Fin 240) (Fin (- 90)) (Fin 270) ''#f00'' True =
     [MoveTo (Fin 120) (Fin 2),
      ArcTo (Fin 118) (Fin 118) 0 1 1 (Fin 120) (Fin 238),
      ArcTo (Fin 118) (Fin 118) 0 1 1 (Fin 120) (Fin 2),
      MoveTo (Fin 120) (Fin (119 / 2)),
      ArcTo (Fin (121 / 2)) (Fin (121 / 2)) 0 1 0 (Fin 120) (Fin (361 / 2)),
      ArcTo (Fin (121 / 2)) (Fin (121 / 2)) 0 1 0 (Fin 120) (Fin (119 / 2)),
      ClosePath] \<and>
   pathData (slicesData ([\<lparr>name = ''A'', amount = Fin 0, color = ''#00f''\<rparr>]
                         @ \<lparr>name = ''B'', amount = Fin 500, color = ''#f00''\<rparr>
                         # [\<lparr>name = ''C'', amount = Fin 0, color = ''#0f0''\<rparr>]) (Fin 240) None ! 1) =
     [MoveTo (Fin 120) (Fin 10),
      ArcTo (Fin 110) (Fin 110) 0 1 1 (Fin 120) (Fin 230),
      ArcTo (Fin 110) (Fin 110) 0 1 1 (Fin 120) (Fin 10),
      MoveTo (Fin 120) (Fin (119 / 2)),
      ArcTo (Fin (121 / 2)) (Fin (121 / 2)) 0 1 0 (Fin 120) (Fin (361 / 2)),
      ArcTo (Fin (121 / 2)) (Fin (121 / 2)) 0 1 0 (Fin 120) (Fin (119 / 2)),
      ClosePath] \<and>
   (20::real) < 240 \<and>
   innerRadius (Fin 240) = Fin (121 / 2) \<and> jgt (innerRadius (Fin 240)) (Fin 0) \<and>
   currentRadius (Fin 240) True = Fin 118 \<and>
   jgt (currentRadius (Fin 240) True) (innerRadius (Fin 240)) \<and>
   jsub (centerY (Fin 240)) (currentRadius (Fin 240) True) \<noteq>
     jadd (centerY (Fin 240)) (currentRadius (Fin 240) True) \<and>
   jsub (centerY (Fin 240)) (innerRadius (Fin 240)) \<noteq>
     jadd (centerY (Fin 240)) (innerRadius (Fin 240))"
proof -
  have ring: "ringPath (Fin 240) (Fin 110) =
     [MoveTo (Fin 120) (Fin 10),
      ArcTo (Fin 110) (Fin 110) 0 1 1 (Fin 120) (Fin 230),
      ArcTo (Fin 110) (Fin 110) 0 1 1 (Fin 120) (Fin 10),
      MoveTo (Fin 120) (Fin (119 / 2)),
      ArcTo (Fin (121 / 2)) (Fin (121 / 2)) 0 1 0 (Fin 120) (Fin (361 / 2)),
      ArcTo (Fin (121 / 2)) (Fin (121 / 2)) 0 1 0 (Fin 120) (Fin (119 / 2)),
      ClosePath]"
    by (simp add: ringPath_def jsub_def radius_def innerRadius_def centerX_def centerY_def)
  show ?thesis
    using full_ring_path[of "Fin 270" "Fin (- 90)" "Fin 240" "''#f00''" True "Fin 110"
        "[\<lparr>name = ''A'', amount = Fin 0, color = ''#00f''\<rparr>]"
        "[\<lparr>name = ''C'', amount = Fin 0, color = ''#0f0''\<rparr>]"
        "\<lparr>name = ''B'', amount = Fin 500, color = ''#f00''\<rparr>" 500 None 240] ring
    by (simp add: ringPath_def jsub_def currentRadius_def radius_def innerRadius_def centerX_def centerY_def)
qed

text \<open>
  The ring is not always a proper ring. At chart size 20 the radius is
  \<^verbatim>\<open>20 / 2 - 10 = 0\<close>, so for the same input (one item carrying the whole total)
  the path starts and ends every arc at the centre point with radius 0: four arcs of
  length zero.
\<close>

theorem ring_collapses_counterexample:
  "pathData (slicesData [\<lparr>name = ''A'', amount = Fin 0, color = ''#00f''\<rparr>,
                         \<lparr>name = ''B'', amount = Fin 500, color = ''#f00''\<rparr>,
                         \<lparr>name = ''C'', amount = Fin 0, color = ''#0f0''\<rparr>] (Fin 20) None ! 1) =
     [MoveTo (Fin 10) (Fin 10),
      ArcTo (Fin 0) (Fin 0) 0 1 1 (Fin 10) (Fin 10),
      ArcTo (Fin 0) (Fin 0) 0 1 1 (Fin 10) (Fin 10),
      MoveTo (Fin 10) (Fin 10),
      ArcTo (Fin 0) (Fin 0) 0 1 0 (Fin 10) (Fin 10),
      ArcTo (Fin 0) (Fin 0) 0 1 0 (Fin 10) (Fin 10),
      ClosePath] \<and>
   radius (Fin 20) = Fin 0 \<and> innerRadius (Fin 20) = Fin 0"
  by (simp add: slicesData_def totalAmount_def Let_def createPieSlice_def ringPath_def
        currentRadius_def radius_def innerRadius_def centerX_def centerY_def jsub_def)


section \<open>Emphasis of the selected slice\<close>

lemma slicesData_nth_fields:
  "k < length data \<Longrightarrow>
     index (slicesData data sz sel ! k) = k \<and>
     item (slicesData data sz sel ! k) = data ! k \<and>
     isSelected (slicesData data sz sel ! k) = (sel = Some k)"
  using slicesFrom_nth_fields[of k data sz "totalAmount data" sel 0 "Fin (- 90)"]
  by (simp add: slicesData_def)

lemma renderPaths_nth:
  "k < length data \<Longrightarrow>
     path_d (renderPaths data sz sel ! k) = pathData (slicesData data sz sel ! k) \<and>
     path_opacity (renderPaths data sz sel ! k) =
       (if sel = None \<or> sel = Some k then Fin 1 else Fin (6 / 10))"
  using slicesData_nth_fields[of k data sz sel]
  by (simp add: renderPaths_def renderPath_def slicesData_def length_slicesFrom)

lemma createPieSlice_radius:
  "createPieSlice sz sa ea col sel =
     (if jge (jsub ea sa) (Fin (3599 / 10))
      then ringPath sz (if sel then jadd (radius sz) (Fin 8) else radius sz)
      else wedgePath sz (if sel then jadd (radius sz) (Fin 8) else radius sz) sa ea)"
  by (simp add: createPieSlice_def currentRadius_def)

text \<open>
  Claim C9, as the component has it. The start and end angles of every slice are the
  same under any two selection states. The path of slice \<open>k\<close> is built on the outer
  radius \<^verbatim>\<open>radius + 8\<close> when \<open>k\<close> is the selected index and on \<^verbatim>\<open>radius\<close>
  otherwise. The selection also sets the opacity of every rendered path: 1 when
  nothing is selected or the slice is the selected one, 0.6 for the other slices.
\<close>

theorem selection_emphasis:
  "map startAngle (slicesData data sz s1) = map startAngle (slicesData data sz s2) \<and>
   map endAngle (slicesData data sz s1) = map endAngle (slicesData data sz s2) \<and>
   (k < length data \<longrightarrow>
      pathData (slicesData data sz s1 ! k) =
        (if jge (jsub (endAngle (slicesData data sz s1 ! k)) (startAngle (slicesData data sz s1 ! k)))
                (Fin (3599 / 10))
         then ringPath sz (if s1 = Some k then jadd (radius sz) (Fin 8) else radius sz)
         else wedgePath sz (if s1 = Some k then jadd (radius sz) (Fin 8) else radius sz)
                (startAngle (slicesData data sz s1 ! k)) (endAngle (slicesData data sz s1 ! k))) \<and>
      path_d (renderPaths data sz s1 ! k) = pathData (slicesData data sz s1 ! k) \<and>
      path_opacity (renderPaths data sz s1 ! k) =
        (if s1 = None \<or> s1 = Some k then Fin 1 else Fin (6 / 10)))"
proof -
  have angles: "map startAngle (slicesData data sz s1) = map startAngle (slicesData data sz s2) \<and>
      map endAngle (slicesData data sz s1) = map endAngle (slicesData data sz s2)"
    unfolding slicesData_def by (rule slicesFrom_angles_sel)
  have "k < length data \<Longrightarrow> pathData (slicesData data sz s1 ! k) =
      createPieSlice sz (startAngle (slicesData data sz s1 ! k)) (endAngle (slicesData data sz s1 ! k))
        (color (data ! k)) (s1 = Some k)"
    using slicesFrom_nth_geometry[of k data sz "totalAmount data" s1 0 "Fin (- 90)"]
    by (simp add: slicesData_def)
  then show ?thesis
    using angles renderPaths_nth[of k data sz s1]
    by (simp add: createPieSlice_radius)
qed

theorem selection_emphasis_witness:
  "(1::nat) < length [\<lparr>name = ''A'', amount = Fin 100, color = ''#f00''\<rparr>,
                      \<lparr>name = ''B'', amount = Fin 300, color = ''#0f0''\<rparr>] \<and>
   map endAngle (slicesData [\<lparr>name = ''A'', amount = Fin 100, color = ''#f00''\<rparr>,
                             \<lparr>name = ''B'', amount = Fin 300, color = ''#0f0''\<rparr>] (Fin 240) (Some 1)) =
     [Fin 0, Fin 270] \<and>
   map endAngle (slicesData [\<lparr>name = ''A'', amount = Fin 100, color = ''#f00''\<rparr>,
                             \<lparr>name = ''B'', amount = Fin 300, color = ''#0f0''\<rparr>] (Fin 240) None) =
     [Fin 0, Fin 270] \<and>
   pathData (slicesData [\<lparr>name = ''A'', amount = Fin 100, color = ''#f00''\<rparr>,
                         \<lparr>name = ''B'', amount = Fin 300, color = ''#0f0''\<rparr>] (Fin 240) (Some 1) ! 1) =
     wedgePath (Fin 240) (Fin 118) (Fin 0) (Fin 270) \<and>
   path_opacity (renderPaths [\<lparr>name = ''A'', amount = Fin 100, color = ''#f00''\<rparr>,
                              \<lparr>name = ''B'', amount = Fin 300, color = ''#0f0''\<rparr>] (Fin 240) (Some 1) ! 1) = Fin 1"
  using selection_emphasis[of "[\<lparr>name = ''A'', amount = Fin 100, color = ''#f00''\<rparr>,
                      \<lparr>name = ''B'', amount = Fin 300, color = ''#0f0''\<rparr>]" "Fin 240" "Some 1" None 1]
  by (simp add: slicesData_def totalAmount_def radius_def jsub_def Let_def)

text \<open>
  The enlarged radius is not the only emphasis: with two items, the second slice is
  unselected both with no selection and with the first slice selected, its path is the
  same in both states, and yet it is rendered with opacity 1 in the first state and
  0.6 in the second.
\<close>

theorem selection_emphasis_counterexample:
  "\<not> isSelected (slicesData [\<lparr>name = ''A'', amount = Fin 100, color = ''#f00''\<rparr>,
                            \<lparr>name = ''B'', amount = Fin 300, color = ''#0f0''\<rparr>] (Fin 240) None ! 1) \<and>
   \<not> isSelected (slicesData [\<lparr>name = ''A'', amount = Fin 100, color = ''#f00''\<rparr>,
                            \<lparr>name = ''B'', amount = Fin 300, color = ''#0f0''\<rparr>] (Fin 240) (Some 0) ! 1) \<and>
   path_d (renderPaths [\<lparr>name = ''A'', amount = Fin 100, color = ''#f00''\<rparr>,
                        \<lparr>name = ''B'', amount = Fin 300, color = ''#0f0''\<rparr>] (Fin 240) None ! 1) =
   path_d (renderPaths [\<lparr>name = ''A'', amount = Fin 100, color = ''#f00''\<rparr>,
                        \<lparr>name = ''B'', amount = Fin 300, color = ''#0f0''\<rparr>] (Fin 240) (Some 0) ! 1) \<and>
   path_opacity (renderPaths [\<lparr>name = ''A'', amount = Fin 100, color = ''#f00''\<rparr>,
                              \<lparr>name = ''B'', amount = Fin 300, color = ''#0f0''\<rparr>] (Fin 240) None ! 1) = Fin 1 \<and>
   path_opacity (renderPaths [\<lparr>name = ''A'', amount = Fin 100, color = ''#f00''\<rparr>,
                              \<lparr>name = ''B'', amount = Fin 300, color = ''#0f0''\<rparr>] (Fin 240) (Some 0) ! 1) = Fin (6 / 10) \<and>
   renderPaths [\<lparr>name = ''A'', amount = Fin 100, color = ''#f00''\<rparr>,
                \<lparr>name = ''B'', amount = Fin 300, color = ''#0f0''\<rparr>] (Fin 240) None ! 1 \<noteq>
   renderPaths [\<lparr>name = ''A'', amount = Fin 100, color = ''#f00''\<rparr>,
                \<lparr>name = ''B'', amount = Fin 300, color = ''#0f0''\<rparr>] (Fin 240) (Some 0) ! 1"
  by (simp add: renderPaths_def renderPath_def slicesData_def totalAmount_def Let_def)

section \<open>Touch overlays\<close>

lemma jmax_floor: "x \<noteq> NaN \<Longrightarrow> jge (jmax (Fin m) x) (Fin m)"
  by (cases x) simp_all

lemma touchOverlays_sel:
  "map (touchOverlay sz) (slicesFrom sz tot s1 i c ps) = map (touchOverlay sz) (slicesFrom sz tot s2 i c ps)"
  by (induction ps arbitrary: i c) (simp_all add: Let_def touchOverlay_def touchSize_def)

text \<open>
  Claim C6, as the component has it. There is one touch overlay per slice, the same
  whatever the selection. The touch point of a slice is the polar point at the mid
  angle \<^verbatim>\<open>(startAngle + endAngle) / 2\<close> on the radius
  \<^verbatim>\<open>(radius + innerRadius) / 2\<close>; the overlay is a square centred there, of side
  \<^verbatim>\<open>Math.max(60, (angleSpan / 360) * size)\<close>. Whenever the second argument of
  that maximum is a number, the side is at least 60.
\<close>

theorem hit_region:
  "length (touchOverlays data sz sel) = length (slicesData data sz sel) \<and>
   length (slicesData data sz sel) = length data \<and>
   touchOverlays data sz sel = touchOverlays data sz sel' \<and>
   (k < length data \<longrightarrow>
      overlay_index (touchOverlays data sz sel ! k) = k \<and>
      index (slicesData data sz sel ! k) = k \<and>
      touchArea (slicesData data sz sel ! k) =
        (polarX sz (jdiv (jadd (radius sz) (innerRadius sz)) (Fin 2))
           (toRad (jdiv (jadd (startAngle (slicesData data sz sel ! k))
                              (endAngle (slicesData data sz sel ! k))) (Fin 2))),
         polarY sz (jdiv (jadd (radius sz) (innerRadius sz)) (Fin 2))
           (toRad (jdiv (jadd (startAngle (slicesData data sz sel ! k))
                              (endAngle (slicesData data sz sel ! k))) (Fin 2)))) \<and>
      overlay_width (touchOverlays data sz sel ! k) =
        jmax (Fin 60)
          (jmul (jdiv (jsub (endAngle (slicesData data sz sel ! k))
                            (startAngle (slicesData data sz sel ! k))) (Fin 360)) sz) \<and>
      overlay_height (touchOverlays data sz sel ! k) = overlay_width (touchOverlays data sz sel ! k) \<and>
      overlay_left (touchOverlays data sz sel ! k) =
        jsub (fst (touchArea (slicesData data sz sel ! k)))
             (jdiv (overlay_width (touchOverlays data sz sel ! k)) (Fin 2)) \<and>
      overlay_top (touchOverlays data sz sel ! k) =
        jsub (snd (touchArea (slicesData data sz sel ! k)))
             (jdiv (overlay_width (touchOverlays data sz sel ! k)) (Fin 2)) \<and>
      (jmul (jdiv (jsub (endAngle (slicesData data sz sel ! k))
                        (startAngle (slicesData data sz sel ! k))) (Fin 360)) sz \<noteq> NaN \<longrightarrow>
         jge (overlay_width (touchOverlays data sz sel ! k)) (Fin 60)))"
proof -
  have len: "length (slicesData data sz sel) = length data"
    by (simp add: slicesData_def length_slicesFrom)
  have same: "touchOverlays data sz sel = touchOverlays data sz sel'"
    unfolding touchOverlays_def slicesData_def by (rule touchOverlays_sel)
  have "k < length data \<Longrightarrow> touchArea (slicesData data sz sel ! k) =
      getSliceTouchArea sz (startAngle (slicesData data sz sel ! k)) (endAngle (slicesData data sz sel ! k))"
    using slicesFrom_nth_geometry[of k data sz "totalAmount data" sel 0 "Fin (- 90)"]
    by (simp add: slicesData_def)
  then have rest: "k < length data \<longrightarrow>
      overlay_index (touchOverlays data sz sel ! k) = k \<and>
      index (slicesData data sz sel ! k) = k \<and>
      touchArea (slicesData data sz sel ! k) =
        (polarX sz (jdiv (jadd (radius sz) (innerRadius sz)) (Fin 2))
           (toRad (jdiv (jadd (startAngle (slicesData data sz sel ! k))
                              (endAngle (slicesData data sz sel ! k))) (Fin 2))),
         polarY sz (jdiv (jadd (radius sz) (innerRadius sz)) (Fin 2))
           (toRad (jdiv (jadd (startAngle (slicesData data sz sel ! k))
                              (endAngle (slicesData data sz sel ! k))) (Fin 2)))) \<and>
      overlay_width (touchOverlays data sz sel ! k) =
        jmax (Fin 60)
          (jmul (jdiv (jsub (endAngle (slicesData data sz sel ! k))
                            (startAngle (slicesData data sz sel ! k))) (Fin 360)) sz) \<and>
      overlay_height (touchOverlays data sz sel ! k) = overlay_width (touchOverlays data sz sel ! k) \<and>
      overlay_left (touchOverlays data sz sel ! k) =
        jsub (fst (touchArea (slicesData data sz sel ! k)))
             (jdiv (overlay_width (touchOverlays data sz sel ! k)) (Fin 2)) \<and>
      overlay_top (touchOverlays data sz sel ! k) =
        jsub (snd (touchArea (slicesData data sz sel ! k)))
             (jdiv (overlay_width (touchOverlays data sz sel ! k)) (Fin 2)) \<and>
      (jmul (jdiv (jsub (endAngle (slicesData data sz sel ! k))
                        (startAngle (slicesData data sz sel ! k))) (Fin 360)) sz \<noteq> NaN \<longrightarrow>
         jge (overlay_width (touchOverlays data sz sel ! k)) (Fin 60))"
    using len slicesData_nth_fields[of k data sz sel]
    by (simp add: touchOverlays_def touchOverlay_def touchSize_def getSliceTouchArea_def
          Let_def jmax_floor)
  have len2: "length (touchOverlays data sz sel) = length (slicesData data sz sel)"
    by (simp add: touchOverlays_def)
  from len2 len same rest show ?thesis by blast
qed

theorem hit_region_witness:
  "(0::nat) < length [\<lparr>name = ''A'', amount = Fin 100, color = ''#f00''\<rparr>,
                      \<lparr>name = ''B'', amount = Fin 300, color = ''#0f0''\<rparr>] \<and>
   jmul (jdiv (jsub (Fin 0) (Fin (- 90))) (Fin 360)) (Fin 200) \<noteq> NaN \<and>
   length (touchOverlays [\<lparr>name = ''A'', amount = Fin 100, color = ''#f00''\<rparr>,
                          \<lparr>name = ''B'', amount = Fin 300, color = ''#0f0''\<rparr>] (Fin 200) None) = 2 \<and>
   overlay_width (touchOverlays [\<lparr>name = ''A'', amount = Fin 100, color = ''#f00''\<rparr>,
                                 \<lparr>name = ''B'', amount = Fin 300, color = ''#0f0''\<rparr>] (Fin 200) None ! 0) = Fin 60 \<and>
   jge (overlay_width (touchOverlays [\<lparr>name = ''A'', amount = Fin 100, color = ''#f00''\<rparr>,
                                 \<lparr>name = ''B'', amount = Fin 300, color = ''#0f0''\<rparr>] (Fin 200) None ! 0)) (Fin 60)"
  using hit_region[of "[\<lparr>name = ''A'', amount = Fin 100, color = ''#f00''\<rparr>,
                      \<lparr>name = ''B'', amount = Fin 300, color = ''#0f0''\<rparr>]" "Fin 200" None None 0]
  by (simp add: slicesData_def totalAmount_def jsub_def Let_def)

text \<open>
  The side is not always at least 60: a span that is \<^verbatim>\<open>NaN\<close> makes the maximum
  \<^verbatim>\<open>NaN\<close>. This happens for an item whose amount is \<^verbatim>\<open>NaN\<close>, and for a single
  item of amount 0, where \<^verbatim>\<open>0 / 0\<close> is \<^verbatim>\<open>NaN\<close>.
\<close>

theorem hit_region_counterexample:
  "overlay_width (touchOverlays [\<lparr>name = ''A'', amount = NaN, color = ''#f00''\<rparr>] (Fin 240) None ! 0) = NaN \<and>
   \<not> jge (overlay_width (touchOverlays [\<lparr>name = ''A'', amount = NaN, color = ''#f00''\<rparr>] (Fin 240) None ! 0)) (Fin 60) \<and>
   overlay_width (touchOverlays [\<lparr>name = ''A'', amount = Fin 0, color = ''#f00''\<rparr>] (Fin 240) None ! 0) = NaN \<and>
   \<not> jge (overlay_width (touchOverlays [\<lparr>name = ''A'', amount = Fin 0, color = ''#f00''\<rparr>] (Fin 240) None ! 0)) (Fin 60)"
  by (simp add: touchOverlays_def touchOverlay_def touchSize_def slicesData_def totalAmount_def jsub_def Let_def)

section \<open>The segment computation\<close>

lemma unitRoundoff_bounds: "0 < unitRoundoff" "unitRoundoff \<le> 1 / 10000"
  by (simp_all add: unitRoundoff_def)

lemma underflowUnit_bounds: "0 < underflowUnit" "underflowUnit \<le> 1 / 10000"
  by (simp_all add: underflowUnit_def)

lemma maxDouble_large: "1000 \<le> maxDouble"
  by (simp add: maxDouble_def)

lemma overflowTo_Fin: "\<bar>r\<bar> \<le> 1000 \<Longrightarrow> overflowTo r = Fin r"
  using maxDouble_large by (auto simp: overflowTo_def)

lemma addR_nonfinite: "\<not> isFinite a \<or> \<not> isFinite b \<Longrightarrow> \<not> isFinite (addR ar a b)"
  by (cases a; cases b) simp_all

lemma foldl_addR_nonfinite:
  "\<not> isFinite s \<Longrightarrow> \<not> isFinite (foldl (\<lambda>sum item. addR ar sum (amount item)) s ps)"
  by (induction ps arbitrary: s) (simp_all add: addR_nonfinite)

lemma fadd_step:
  assumes "standardModel ar" and "0 \<le> t" and "0 \<le> a"
  shows "(t + a) * (1 - unitRoundoff) \<le> fadd ar t a \<and>
         fadd ar t a \<le> (t + a) * (1 + unitRoundoff) \<and> 0 \<le> fadd ar t a"
proof -
  define m where "m = unitRoundoff * (t + a)"
  define v where "v = fadd ar t a"
  define s where "s = t + a"
  have "\<bar>fadd ar t a - (t + a)\<bar> \<le> unitRoundoff * \<bar>t + a\<bar>"
    using assms(1) by (simp add: standardModel_def)
  then have e: "\<bar>v - s\<bar> \<le> m"
    using assms(2,3) by (simp add: m_def v_def s_def)
  have "unitRoundoff * (t + a) \<le> 1 * (t + a)"
    using assms(2,3) unitRoundoff_bounds by (intro mult_right_mono) simp_all
  then have m: "m \<le> s" by (simp add: m_def s_def)
  have lo: "(t + a) * (1 - unitRoundoff) = s - m"
    by (simp add: algebra_simps m_def s_def)
  have hi: "(t + a) * (1 + unitRoundoff) = s + m"
    by (simp add: algebra_simps m_def s_def)
  from e m have "s - m \<le> v \<and> v \<le> s + m \<and> 0 \<le> v" by linarith
  then show ?thesis unfolding lo hi by (simp add: v_def)
qed

lemma total_bounds:
  assumes sm: "standardModel ar"
  shows "map amount ps = map Fin rs \<Longrightarrow> \<forall>r \<in> set rs. 0 \<le> r \<Longrightarrow> 0 \<le> t \<Longrightarrow>
     foldl (\<lambda>sum item. addR ar sum (amount item)) (Fin t) ps = Fin T \<Longrightarrow>
     (t + sum_list rs) * (1 - unitRoundoff) ^ length ps \<le> T \<and>
     T \<le> (t + sum_list rs) * (1 + unitRoundoff) ^ length ps \<and> 0 \<le> T"
proof (induction ps arbitrary: rs t)
  case Nil
  then show ?case by simp
next
  case (Cons p ps)
  from Cons.prems(1) obtain r rs' where rs: "rs = r # rs'" "amount p = Fin r" "map amount ps = map Fin rs'"
    by (cases rs) auto
  from Cons.prems(2) rs have r0: "0 \<le> r" and rs0: "\<forall>r \<in> set rs'. 0 \<le> r" by simp_all
  then have S0: "0 \<le> sum_list rs'" by (simp add: sum_list_nonneg)
  let ?t1 = "fadd ar t r"
  have fin: "isFinite (overflowTo ?t1)"
  proof (rule ccontr)
    assume "\<not> isFinite (overflowTo ?t1)"
    then have "\<not> isFinite (foldl (\<lambda>sum item. addR ar sum (amount item)) (overflowTo ?t1) ps)"
      by (rule foldl_addR_nonfinite)
    with Cons.prems(4) rs show False by simp
  qed
  then have ov: "overflowTo ?t1 = Fin ?t1"
    by (simp add: overflowTo_def split: if_splits)
  from fadd_step[OF sm Cons.prems(3) r0]
  have lo1: "(t + r) * (1 - unitRoundoff) \<le> ?t1" and hi1: "?t1 \<le> (t + r) * (1 + unitRoundoff)"
    and t1: "0 \<le> ?t1" by simp_all
  from Cons.prems(4) rs ov have "foldl (\<lambda>sum item. addR ar sum (amount item)) (Fin ?t1) ps = Fin T"
    by simp
  from Cons.IH[OF rs(3) rs0 t1 this]
  have lo2: "(?t1 + sum_list rs') * (1 - unitRoundoff) ^ length ps \<le> T"
    and hi2: "T \<le> (?t1 + sum_list rs') * (1 + unitRoundoff) ^ length ps" and T0: "0 \<le> T" by simp_all
  have u: "0 \<le> unitRoundoff" "unitRoundoff \<le> 1" using unitRoundoff_bounds by simp_all
  have "sum_list rs' * unitRoundoff \<ge> 0" using S0 u by simp
  then have a: "(t + r + sum_list rs') * (1 - unitRoundoff) \<le> ?t1 + sum_list rs'"
    and b: "?t1 + sum_list rs' \<le> (t + r + sum_list rs') * (1 + unitRoundoff)"
    using lo1 hi1 by (simp_all add: algebra_simps)
  have "(t + r + sum_list rs') * (1 - unitRoundoff) * (1 - unitRoundoff) ^ length ps
          \<le> (?t1 + sum_list rs') * (1 - unitRoundoff) ^ length ps"
    using a u by (intro mult_right_mono) simp_all
  with lo2 have lo: "(t + sum_list rs) * (1 - unitRoundoff) ^ length (p # ps) \<le> T"
    using rs by (simp add: algebra_simps)
  have "(?t1 + sum_list rs') * (1 + unitRoundoff) ^ length ps
          \<le> (t + r + sum_list rs') * (1 + unitRoundoff) * (1 + unitRoundoff) ^ length ps"
    using b u by (intro mult_right_mono) simp_all
  with hi2 have hi: "T \<le> (t + sum_list rs) * (1 + unitRoundoff) ^ length (p # ps)"
    using rs by (simp add: algebra_simps)
  from lo hi T0 show ?case by simp
qed

lemma ratio_bounds:
  assumes lo: "S * (1 - unitRoundoff) ^ n \<le> T" and hi: "T \<le> S * (1 + unitRoundoff) ^ n"
    and T: "0 < T" and n: "real n * unitRoundoff \<le> 1 / 2"
  shows "0 < S \<and> S \<le> 2 * T \<and> \<bar>S / T - 1\<bar> \<le> 2 * (real n * unitRoundoff)"
proof -
  define w where "w = real n * unitRoundoff"
  have u: "0 \<le> unitRoundoff" "unitRoundoff \<le> 1" using unitRoundoff_bounds by simp_all
  have w: "0 \<le> w" "w \<le> 1 / 2" using n u by (simp_all add: w_def)
  have pw: "0 < (1 + unitRoundoff) ^ n" using u by (intro zero_less_power) simp
  have S: "0 < S"
  proof (rule ccontr)
    assume "\<not> 0 < S"
    then have "S * (1 + unitRoundoff) ^ n \<le> 0"
      using pw by (simp add: mult_le_0_iff)
    with hi T show False by simp
  qed
  have bern: "1 - w \<le> (1 - unitRoundoff) ^ n"
    using Bernoulli_inequality[of "- unitRoundoff" n] u by (simp add: w_def)
  have "S * (1 - w) \<le> S * (1 - unitRoundoff) ^ n"
    using bern S by (intro mult_left_mono) simp_all
  with lo have a: "S * (1 - w) \<le> T" by simp
  have "(1 + unitRoundoff) ^ n * (1 - unitRoundoff) ^ n = ((1 + unitRoundoff) * (1 - unitRoundoff)) ^ n"
    by (simp add: power_mult_distrib)
  also have "\<dots> \<le> 1"
  proof (rule power_le_one)
    show "0 \<le> (1 + unitRoundoff) * (1 - unitRoundoff)" using u by simp
    have "(1 + unitRoundoff) * (1 - unitRoundoff) = 1 - unitRoundoff * unitRoundoff"
      by (simp add: algebra_simps)
    then show "(1 + unitRoundoff) * (1 - unitRoundoff) \<le> 1" using u by simp
  qed
  finally have prod: "(1 + unitRoundoff) ^ n * (1 - unitRoundoff) ^ n \<le> 1" .
  have "(1 + unitRoundoff) ^ n * (1 - w) \<le> (1 + unitRoundoff) ^ n * (1 - unitRoundoff) ^ n"
    using bern pw by (intro mult_left_mono) simp_all
  with prod have c: "(1 + unitRoundoff) ^ n * (1 - w) \<le> 1" by simp
  have "T * (1 - w) \<le> S * (1 + unitRoundoff) ^ n * (1 - w)"
    using hi w by (intro mult_right_mono) simp_all
  also have "\<dots> = S * ((1 + unitRoundoff) ^ n * (1 - w))" by simp
  also have "\<dots> \<le> S * 1" using c S by (intro mult_left_mono) simp_all
  finally have b: "T * (1 - w) \<le> S" by simp
  have Sw: "S * w \<le> S * (1 / 2)" using w S by (intro mult_left_mono) simp_all
  from a have "S - S * w \<le> T" by (simp add: algebra_simps)
  with Sw have S2: "S \<le> 2 * T" by simp
  have wT: "0 \<le> w * T" using w T by simp
  have "S * w \<le> (2 * T) * w" using S2 w by (intro mult_right_mono) simp_all
  then have Tw: "S * w \<le> 2 * (w * T)" by (simp add: algebra_simps)
  from a have "S - T \<le> S * w" by (simp add: algebra_simps)
  with Tw have up: "S - T \<le> 2 * (w * T)" by linarith
  from b have "T - S \<le> w * T" by (simp add: algebra_simps)
  with wT have dn: "T - S \<le> 2 * (w * T)" by linarith
  from up dn have "\<bar>S - T\<bar> \<le> 2 * w * T" by simp
  then have "\<bar>S - T\<bar> / T \<le> 2 * w" using T by (simp add: pos_divide_le_eq)
  moreover have "S / T - 1 = (S - T) / T"
    using T by (simp add: field_simps)
  then have "\<bar>S / T - 1\<bar> = \<bar>S - T\<bar> / T"
    using T by simp
  ultimately have "\<bar>S / T - 1\<bar> \<le> 2 * w" by simp
  with S S2 show ?thesis by (simp add: w_def)
qed

lemma sm_add: "standardModel ar \<Longrightarrow> \<bar>fadd ar x y - (x + y)\<bar> \<le> unitRoundoff * \<bar>x + y\<bar>"
  unfolding standardModel_def by blast

lemma sm_mul: "standardModel ar \<Longrightarrow> \<bar>fmul ar x y - x * y\<bar> \<le> unitRoundoff * \<bar>x * y\<bar> + underflowUnit"
  unfolding standardModel_def by blast

lemma sm_div: "standardModel ar \<Longrightarrow> y \<noteq> 0 \<Longrightarrow>
    \<bar>fdiv ar x y - x / y\<bar> \<le> unitRoundoff * \<bar>x / y\<bar> + underflowUnit"
  unfolding standardModel_def by blast

lemma budget_step:
  "\<bar>e - c - X\<bar> \<le> k \<Longrightarrow> \<bar>c\<bar> + X + Y + k + Z \<le> B \<Longrightarrow> 0 \<le> X \<Longrightarrow> \<bar>e\<bar> + Y + Z \<le> (B::real)"
  by linarith

lemma error_step:
  "\<bar>e - c - X\<bar> \<le> k \<Longrightarrow> \<bar>d - Y\<bar> \<le> Z \<Longrightarrow> \<bar>(e - c) + d - (X + Y)\<bar> \<le> k + (Z::real)"
  by linarith

lemma angle_step:
  assumes sm: "standardModel ar" and T: "0 < T" and a: "0 \<le> a" "a \<le> 2 * T"
    and B: "0 \<le> B"
    and k: "k = (B + 1801) * unitRoundoff + 361 * underflowUnit"
    and budget: "\<bar>c\<bar> + 360 * (a / T) + k \<le> B"
  shows "\<bar>fdiv ar a T\<bar> \<le> 3 \<and>
         \<bar>fmul ar (fdiv ar a T) 360\<bar> \<le> 1000 \<and>
         \<bar>fadd ar c (fmul ar (fdiv ar a T) 360)\<bar> \<le> B \<and>
         \<bar>fadd ar c (fmul ar (fdiv ar a T) 360) - c - 360 * (a / T)\<bar> \<le> k"
proof -
  define u where "u = unitRoundoff"
  define h where "h = underflowUnit"
  define x where "x = a / T"
  define q where "q = fdiv ar a T"
  define g where "g = fmul ar q 360"
  define e where "e = fadd ar c g"
  have u: "0 \<le> u" "u \<le> 1 / 10000" using unitRoundoff_bounds by (simp_all add: u_def)
  have h: "0 \<le> h" and h': "h \<le> 1 / 10000" using underflowUnit_bounds by (simp_all add: h_def)
  have x: "0 \<le> x" "x \<le> 2" using a T by (simp_all add: x_def pos_divide_le_eq)
  have Bu: "0 \<le> B * u" using B u by simp
  have kk: "k = B * u + 1801 * u + 361 * h" by (simp add: k u_def h_def algebra_simps)
  have k0: "0 \<le> k" using Bu u h kk by linarith
  have "\<bar>fdiv ar a T - a / T\<bar> \<le> unitRoundoff * \<bar>a / T\<bar> + underflowUnit"
    using T by (intro sm_div[OF sm]) simp
  moreover have "\<bar>a / T\<bar> = a / T" using x(1) unfolding x_def by (rule abs_of_nonneg)
  ultimately have dq0: "\<bar>q - x\<bar> \<le> u * x + h" by (simp only: q_def x_def u_def h_def)
  have "u * x \<le> u * 2" using x u by (intro mult_left_mono) simp_all
  with dq0 have dq: "\<bar>q - x\<bar> \<le> 2 * u + h" by linarith
  with x u h' have q3: "\<bar>q\<bar> \<le> 3" by linarith
  have "\<bar>fmul ar q 360 - q * 360\<bar> \<le> unitRoundoff * \<bar>q * 360\<bar> + underflowUnit"
    by (rule sm_mul[OF sm])
  then have dg0: "\<bar>g - q * 360\<bar> \<le> u * \<bar>q * 360\<bar> + h" by (simp only: g_def u_def h_def)
  have "\<bar>q * 360\<bar> \<le> 1080" using q3 by linarith
  then have "u * \<bar>q * 360\<bar> \<le> u * 1080" using u by (intro mult_left_mono) simp_all
  with dg0 have dg1: "\<bar>g - q * 360\<bar> \<le> 1080 * u + h" by linarith
  from dq have "\<bar>q * 360 - 360 * x\<bar> \<le> 720 * u + 360 * h" by linarith
  with dg1 have dg: "\<bar>g - 360 * x\<bar> \<le> 1800 * u + 361 * h" by linarith
  with x u h' have g1000: "\<bar>g\<bar> \<le> 1000" by linarith
  from budget have cb: "\<bar>c\<bar> + 360 * x + k \<le> B" by (simp add: x_def)
  have small: "1800 * u + 361 * h \<le> 1" using u h' by linarith
  have cg: "\<bar>c + g\<bar> \<le> B + 1" using cb k0 dg small x by linarith
  have "\<bar>fadd ar c g - (c + g)\<bar> \<le> unitRoundoff * \<bar>c + g\<bar>"
    by (rule sm_add[OF sm])
  then have de0: "\<bar>e - (c + g)\<bar> \<le> u * \<bar>c + g\<bar>" by (simp only: e_def u_def)
  have "u * \<bar>c + g\<bar> \<le> u * (B + 1)" using cg u by (intro mult_left_mono) simp_all
  also have "\<dots> = B * u + u" by (simp add: algebra_simps)
  finally have "u * \<bar>c + g\<bar> \<le> B * u + u" .
  with de0 have de: "\<bar>e - (c + g)\<bar> \<le> B * u + u" by linarith
  from de dg kk have err: "\<bar>e - c - 360 * x\<bar> \<le> k" by linarith
  with cb x have eB: "\<bar>e\<bar> \<le> B" by linarith
  from q3 g1000 eB err show ?thesis
    by (simp add: q_def g_def e_def x_def)
qed

lemma angles_spans:
  assumes sm: "standardModel ar" and T: "0 < T" and B: "0 \<le> B" "B \<le> 1000"
    and k: "k = (B + 1801) * unitRoundoff + 361 * underflowUnit"
  shows "map amount ps = map Fin rs \<Longrightarrow> \<forall>r \<in> set rs. 0 \<le> r \<and> r \<le> 2 * T \<Longrightarrow>
     \<bar>c\<bar> + 360 * (sum_list rs / T) + real (length ps) * k \<le> B \<Longrightarrow>
     \<exists>d. foldl (\<lambda>acc p. jadd acc (jsub (snd p) (fst p))) (Fin acc0)
            (anglesFromR ar (Fin T) (Fin c) ps) = Fin (acc0 + d) \<and>
         \<bar>d - 360 * (sum_list rs / T)\<bar> \<le> real (length ps) * k"
proof (induction ps arbitrary: rs c acc0)
  case Nil
  then show ?case by simp
next
  case (Cons p ps)
  from Cons.prems(1) obtain r rs' where rs: "rs = r # rs'" "amount p = Fin r" "map amount ps = map Fin rs'"
    by (cases rs) auto
  from Cons.prems(2) rs have r: "0 \<le> r" "r \<le> 2 * T"
    and rs0: "\<forall>r \<in> set rs'. 0 \<le> r \<and> r \<le> 2 * T" by simp_all
  have "\<forall>r \<in> set rs'. 0 \<le> r" using rs0 by simp
  then have "0 \<le> sum_list rs'" by (simp add: sum_list_nonneg)
  then have S0: "0 \<le> sum_list rs' / T" using T by simp
  have k0: "0 \<le> k"
    using B unitRoundoff_bounds underflowUnit_bounds by (simp add: k)
  then have nk0: "0 \<le> real (length ps) * k" by simp
  have split: "sum_list rs / T = r / T + sum_list rs' / T"
    using rs by (simp add: add_divide_distrib)
  have len: "real (length (p # ps)) * k = k + real (length ps) * k"
    by (simp add: algebra_simps)
  from Cons.prems(3) have tot: "\<bar>c\<bar> + 360 * (r / T) + 360 * (sum_list rs' / T) + k + real (length ps) * k \<le> B"
    unfolding split len by (simp add: algebra_simps)
  have budget: "\<bar>c\<bar> + 360 * (r / T) + k \<le> B"
  proof -
    have "0 \<le> 360 * (sum_list rs' / T)" using S0 by simp
    with tot nk0 show ?thesis by linarith
  qed
  define q where "q = fdiv ar r T"
  define g where "g = fmul ar q 360"
  define e where "e = fadd ar c g"
  from angle_step[OF sm T r B(1) k budget]
  have q3: "\<bar>q\<bar> \<le> 3" and g1000: "\<bar>g\<bar> \<le> 1000" and eB: "\<bar>e\<bar> \<le> B"
    and err: "\<bar>e - c - 360 * (r / T)\<bar> \<le> k"
    by (simp_all add: q_def g_def e_def)
  have T0: "T \<noteq> 0" using T by simp
  have dq: "divR ar (Fin r) (Fin T) = Fin q"
    using T0 q3 by (simp add: q_def overflowTo_Fin)
  have mg: "mulR ar (Fin q) (Fin 360) = Fin g"
    using g1000 by (simp add: g_def overflowTo_Fin)
  have ae: "addR ar (Fin c) (Fin g) = Fin e"
    using eB B(2) by (simp add: e_def overflowTo_Fin)
  have unfold: "anglesFromR ar (Fin T) (Fin c) (p # ps) =
      (Fin c, Fin e) # anglesFromR ar (Fin T) (Fin e) ps"
    using rs(2) dq mg ae by (simp add: Let_def)
  have "0 \<le> 360 * (r / T)" using r T by simp
  with err tot have budget': "\<bar>e\<bar> + 360 * (sum_list rs' / T) + real (length ps) * k \<le> B"
    by (rule budget_step)
  from Cons.IH[OF rs(3) rs0 budget', of "acc0 + (e - c)"]
  obtain d' where d': "foldl (\<lambda>acc p. jadd acc (jsub (snd p) (fst p))) (Fin (acc0 + (e - c)))
        (anglesFromR ar (Fin T) (Fin e) ps) = Fin (acc0 + (e - c) + d')"
      "\<bar>d' - 360 * (sum_list rs' / T)\<bar> \<le> real (length ps) * k"
    by blast
  have "foldl (\<lambda>acc p. jadd acc (jsub (snd p) (fst p))) (Fin acc0)
          (anglesFromR ar (Fin T) (Fin c) (p # ps)) = Fin (acc0 + ((e - c) + d'))"
    using d'(1) unfold by (simp add: jsub_def add.assoc)
  moreover have "\<bar>(e - c) + d' - (360 * (r / T) + 360 * (sum_list rs' / T))\<bar>
      \<le> k + real (length ps) * k"
    using err d'(2) by (rule error_step)
  then have "\<bar>(e - c) + d' - 360 * (sum_list rs / T)\<bar> \<le> real (length (p # ps)) * k"
    unfolding split len by (simp add: algebra_simps)
  ultimately show ?case by blast
qed

lemma length_anglesFromR: "length (anglesFromR ar tot c ps) = length ps"
  by (induction ps arbitrary: c) (simp_all add: Let_def)

lemma anglesFromR_start_hd:
  "ps \<noteq> [] \<Longrightarrow> fst (anglesFromR ar tot c ps ! 0) = c"
  by (cases ps) (simp_all add: Let_def)

lemma anglesFromR_contiguous:
  "Suc k < length ps \<Longrightarrow>
     fst (anglesFromR ar tot c ps ! Suc k) = snd (anglesFromR ar tot c ps ! k)"
proof (induction ps arbitrary: c k)
  case Nil
  then show ?case by simp
next
  case (Cons p ps)
  show ?case
  proof (cases k)
    case 0
    with Cons.prems obtain q qs where "ps = q # qs" by (cases ps) auto
    with 0 show ?thesis by (simp add: Let_def)
  next
    case (Suc m)
    with Cons.prems have "Suc m < length ps" by simp
    from Cons.IH[OF this] Suc show ?thesis by (simp add: Let_def)
  qed
qed

lemma nonneg_amounts_reals:
  "\<forall>p \<in> set ps. isFinite (amount p) \<and> jge (amount p) (Fin 0) \<Longrightarrow>
     \<exists>rs. map amount ps = map Fin rs \<and> (\<forall>r \<in> set rs. 0 \<le> r)"
proof (induction ps)
  case Nil
  then show ?case by simp
next
  case (Cons p ps)
  then obtain rs where rs: "map amount ps = map Fin rs" "\<forall>r \<in> set rs. 0 \<le> r" by auto
  from Cons.prems obtain r where r: "amount p = Fin r" "0 \<le> r" by (cases "amount p") auto
  with rs have "map amount (p # ps) = map Fin (r # rs) \<and> (\<forall>x \<in> set (r # rs). 0 \<le> x)" by simp
  then show ?case by blast
qed

lemma member_le_sum_list_real:
  "\<forall>r \<in> set rs. (0::real) \<le> r \<Longrightarrow> x \<in> set rs \<Longrightarrow> x \<le> sum_list rs"
proof (induction rs)
  case Nil
  then show ?case by simp
next
  case (Cons r rs)
  then have "0 \<le> sum_list rs" by (simp add: sum_list_nonneg)
  with Cons show ?case by auto
qed

lemma million_roundoff:
  "10 ^ 6 * unitRoundoff \<le> 1 / 1000"
  "10 ^ 6 * underflowUnit \<le> 1 / 1000"
  "2981 * (10 ^ 6 * unitRoundoff) + 361 * (10 ^ 6 * underflowUnit) \<le> 1 / 10 ^ 6"
  by (simp_all add: unitRoundoff_def underflowUnit_def)

lemma span_sum_doubles:
  assumes sm: "standardModel ar" and len: "length data \<le> 10 ^ 6"
    and am: "\<forall>p \<in> set data. isFinite (amount p) \<and> jge (amount p) (Fin 0)"
    and fin: "isFinite (totalR ar data)" and pos: "jgt (totalR ar data) (Fin 0)"
  shows "\<exists>d. spanSumR (anglesR ar data) = Fin d \<and> \<bar>d - 360\<bar> \<le> 1 / 10 ^ 6"
proof -
  define n where "n = length data"
  define u where "u = unitRoundoff"
  define h where "h = underflowUnit"
  define k where "k = (460 + 1801) * unitRoundoff + 361 * underflowUnit"
  from am obtain rs where rs: "map amount data = map Fin rs" "\<forall>r \<in> set rs. 0 \<le> r"
    using nonneg_amounts_reals by blast
  from fin obtain T where T: "totalR ar data = Fin T" by (cases "totalR ar data") auto
  with pos have T0: "0 < T" by simp
  define S where "S = sum_list rs"
  from T have "foldl (\<lambda>sum item. addR ar sum (amount item)) (Fin 0) data = Fin T"
    by (simp add: totalR_def)
  from total_bounds[OF sm rs(1) rs(2) _ this]
  have lo: "S * (1 - unitRoundoff) ^ n \<le> T" and hi: "T \<le> S * (1 + unitRoundoff) ^ n"
    by (simp_all add: S_def n_def)
  have u0: "0 \<le> u" and h0: "0 \<le> h"
    using unitRoundoff_bounds underflowUnit_bounds by (simp_all add: u_def h_def)
  have nle: "real n \<le> 10 ^ 6" using len by (simp add: n_def)
  have "real n * u \<le> 10 ^ 6 * u" using nle u0 by (intro mult_right_mono) simp_all
  then have nu: "real n * u \<le> 10 ^ 6 * unitRoundoff" by (simp add: u_def)
  have "real n * h \<le> 10 ^ 6 * h" using nle h0 by (intro mult_right_mono) simp_all
  then have nh: "real n * h \<le> 10 ^ 6 * underflowUnit" by (simp add: h_def)
  have nu0: "0 \<le> real n * u" and nh0: "0 \<le> real n * h" using u0 h0 by simp_all
  from nu million_roundoff(1) have "real n * unitRoundoff \<le> 1 / 2" by (simp add: u_def)
  from ratio_bounds[OF lo hi T0 this]
  have S0: "0 < S" and S2: "S \<le> 2 * T" and ratio: "\<bar>S / T - 1\<bar> \<le> 2 * (real n * u)"
    by (simp_all add: u_def)
  have rs2: "\<forall>r \<in> set rs. 0 \<le> r \<and> r \<le> 2 * T"
  proof
    fix r assume r: "r \<in> set rs"
    with rs(2) have "r \<le> S" unfolding S_def by (intro member_le_sum_list_real) simp_all
    with S2 r rs(2) show "0 \<le> r \<and> r \<le> 2 * T" by auto
  qed
  have nk: "real n * k = 2261 * (real n * u) + 361 * (real n * h)"
    by (simp add: k_def u_def h_def algebra_simps)
  have budget: "\<bar>- 90\<bar> + 360 * (sum_list rs / T) + real (length data) * k \<le> (460::real)"
  proof -
    have "360 * (S / T) \<le> 360 + 720 * (real n * u)" using ratio by linarith
    with nk nu nh million_roundoff(1,2) show ?thesis
      by (simp add: S_def n_def u_def h_def)
  qed
  from angles_spans[OF sm T0 _ _ k_def rs(1) rs2 budget, of 0]
  obtain d where d: "foldl (\<lambda>acc p. jadd acc (jsub (snd p) (fst p))) (Fin 0)
        (anglesFromR ar (Fin T) (Fin (- 90)) data) = Fin (0 + d)"
      "\<bar>d - 360 * (sum_list rs / T)\<bar> \<le> real (length data) * k"
    by auto
  from d(1) T have sp: "spanSumR (anglesR ar data) = Fin d"
    by (simp add: spanSumR_def anglesR_def)
  from d(2) have "\<bar>d - 360 * (S / T)\<bar> \<le> 2261 * (real n * u) + 361 * (real n * h)"
    using nk by (simp add: S_def n_def)
  moreover have "\<bar>360 * (S / T) - 360\<bar> \<le> 720 * (real n * u)" using ratio by linarith
  ultimately have "\<bar>d - 360\<bar> \<le> 2981 * (real n * u) + 361 * (real n * h)" by linarith
  also have "\<dots> \<le> 2981 * (10 ^ 6 * unitRoundoff) + 361 * (10 ^ 6 * underflowUnit)"
    using nu nh by linarith
  also have "\<dots> \<le> 1 / 10 ^ 6" by (rule million_roundoff(3))
  finally have "\<bar>d - 360\<bar> \<le> 1 / 10 ^ 6" .
  with sp show ?thesis by blast
qed

lemma exactArith_standard: "standardModel exactArith"
  by (simp add: standardModel_def exactArith_def unitRoundoff_def underflowUnit_def)

lemma exactArith_fields:
  "fadd exactArith x y = x + y" "fmul exactArith x y = x * y" "fdiv exactArith x y = x / y"
  by (simp_all add: exactArith_def)

lemma overflowTo_in_range: "0 \<le> r \<Longrightarrow> r \<le> maxDouble \<Longrightarrow> overflowTo r = Fin r"
  by (auto simp: overflowTo_def)

lemma overflowing_pair:
  assumes "0 \<le> a" and "a \<le> maxDouble" and "maxDouble < a + a"
  shows "totalR exactArith [\<lparr>name = n1, amount = Fin a, color = c1\<rparr>,
                            \<lparr>name = n2, amount = Fin a, color = c2\<rparr>] = PInf \<and>
         anglesR exactArith [\<lparr>name = n1, amount = Fin a, color = c1\<rparr>,
                             \<lparr>name = n2, amount = Fin a, color = c2\<rparr>] =
           [(Fin (- 90), Fin (- 90)), (Fin (- 90), Fin (- 90))]"
proof -
  have 1: "overflowTo a = Fin a" using assms(1,2) by (rule overflowTo_in_range)
  have 2: "overflowTo (a + a) = PInf" using assms(3) by (simp add: overflowTo_def)
  have tot: "totalR exactArith [\<lparr>name = n1, amount = Fin a, color = c1\<rparr>,
                            \<lparr>name = n2, amount = Fin a, color = c2\<rparr>] = PInf"
    using 1 2 by (simp add: totalR_def exactArith_fields)
  show ?thesis
    unfolding anglesR_def tot by (simp add: exactArith_fields overflowTo_Fin Let_def)
qed

lemma exact_total_agrees:
  "map amount ps = map Fin rs \<Longrightarrow>
     foldl (\<lambda>sum item. addR exactArith sum (amount item)) (Fin t) ps = Fin T \<Longrightarrow>
     foldl (\<lambda>sum item. jadd sum (amount item)) (Fin t) ps = Fin T \<and> T = t + sum_list rs"
proof (induction ps arbitrary: rs t)
  case Nil
  then show ?case by simp
next
  case (Cons p ps)
  from Cons.prems(1) obtain r rs' where rs: "rs = r # rs'" "amount p = Fin r" "map amount ps = map Fin rs'"
    by (cases rs) auto
  have fin: "isFinite (overflowTo (t + r))"
  proof (rule ccontr)
    assume "\<not> isFinite (overflowTo (t + r))"
    then have "\<not> isFinite (foldl (\<lambda>sum item. addR exactArith sum (amount item)) (overflowTo (t + r)) ps)"
      by (rule foldl_addR_nonfinite)
    with Cons.prems(2) rs show False by (simp add: exactArith_fields)
  qed
  then have ov: "overflowTo (t + r) = Fin (t + r)"
    by (simp add: overflowTo_def split: if_splits)
  with Cons.prems(2) rs
  have "foldl (\<lambda>sum item. addR exactArith sum (amount item)) (Fin (t + r)) ps = Fin T"
    by (simp add: exactArith_fields)
  from Cons.IH[OF rs(3) this] rs show ?case by (simp add: add.assoc)
qed

lemma exact_angles_agree:
  assumes T: "0 < T"
  shows "map amount ps = map Fin rs \<Longrightarrow> \<forall>r \<in> set rs. 0 \<le> r \<and> r \<le> T \<Longrightarrow>
     \<bar>c\<bar> + 360 * (sum_list rs / T) \<le> 1000 \<Longrightarrow>
     anglesFromR exactArith (Fin T) (Fin c) ps =
       map (\<lambda>s. (startAngle s, endAngle s)) (slicesFrom sz (Fin T) sel i (Fin c) ps)"
proof (induction ps arbitrary: rs c i)
  case Nil
  then show ?case by simp
next
  case (Cons p ps)
  from Cons.prems(1) obtain r rs' where rs: "rs = r # rs'" "amount p = Fin r" "map amount ps = map Fin rs'"
    by (cases rs) auto
  from Cons.prems(2) rs have r: "0 \<le> r" "r \<le> T"
    and rs0: "\<forall>r \<in> set rs'. 0 \<le> r \<and> r \<le> T" by simp_all
  have "\<forall>r \<in> set rs'. 0 \<le> r" using rs0 by simp
  then have "0 \<le> sum_list rs'" by (simp add: sum_list_nonneg)
  then have S0: "0 \<le> 360 * (sum_list rs' / T)" using T by simp
  define x where "x = r / T"
  have x: "0 \<le> x" "x \<le> 1" using r T by (simp_all add: x_def)
  have split: "sum_list rs / T = x + sum_list rs' / T"
    using rs by (simp add: add_divide_distrib x_def)
  from Cons.prems(3) have tot: "\<bar>c\<bar> + 360 * x + 360 * (sum_list rs' / T) \<le> 1000"
    unfolding split by (simp add: algebra_simps)
  have T0: "T \<noteq> 0" using T by simp
  have q: "divR exactArith (Fin r) (Fin T) = Fin x" "jdiv (Fin r) (Fin T) = Fin x"
    using T0 x by (simp_all add: exactArith_fields overflowTo_Fin x_def)
  have g: "mulR exactArith (Fin x) (Fin 360) = Fin (x * 360)"
    using x by (simp add: exactArith_fields overflowTo_Fin)
  have "\<bar>c + x * 360\<bar> \<le> 1000" using tot S0 x by linarith
  then have e: "addR exactArith (Fin c) (Fin (x * 360)) = Fin (c + x * 360)"
    by (simp add: exactArith_fields overflowTo_Fin)
  have next_budget: "\<bar>c + x * 360\<bar> + 360 * (sum_list rs' / T) \<le> 1000"
    using tot x by linarith
  from Cons.IH[OF rs(3) rs0 next_budget, of "Suc i"] rs(2) q g e
  show ?case by (simp add: Let_def)
qed

lemma exact_model_agrees:
  assumes am: "\<forall>p \<in> set data. isFinite (amount p) \<and> jge (amount p) (Fin 0)"
    and fin: "isFinite (totalR exactArith data)" and pos: "jgt (totalR exactArith data) (Fin 0)"
  shows "totalR exactArith data = totalAmount data \<and>
         anglesR exactArith data =
           map (\<lambda>s. (startAngle s, endAngle s)) (slicesData data sz sel)"
proof -
  from am obtain rs where rs: "map amount data = map Fin rs" "\<forall>r \<in> set rs. 0 \<le> r"
    using nonneg_amounts_reals by blast
  from fin obtain T where T: "totalR exactArith data = Fin T" by (cases "totalR exactArith data") auto
  with pos have T0: "0 < T" by simp
  from T have "foldl (\<lambda>sum item. addR exactArith sum (amount item)) (Fin 0) data = Fin T"
    by (simp add: totalR_def)
  from exact_total_agrees[OF rs(1) this]
  have tot: "totalAmount data = Fin T" and S: "T = sum_list rs" by (simp_all add: totalAmount_def)
  have rs2: "\<forall>r \<in> set rs. 0 \<le> r \<and> r \<le> T"
    using rs(2) S member_le_sum_list_real[OF rs(2)] by auto
  have "\<bar>- 90\<bar> + 360 * (sum_list rs / T) \<le> (1000::real)"
    using S T0 by simp
  from exact_angles_agree[OF T0 rs(1) rs2 this, of sz sel 0]
  show ?thesis by (simp add: anglesR_def slicesData_def T tot)
qed

text \<open>
  Claim C4, as the component has it. In the arithmetic of doubles, there is one pair of
  angles per item, the first slice starts at -90 degrees and every later slice starts
  at the end angle of the slice before it, for every input; the same holds of the
  slice records. When the amounts are finite and non-negative, there are at most
  1000000 items, and the total computed in doubles is positive and finite, the spans
  \<^verbatim>\<open>endAngle - startAngle\<close> add up to 360 degrees within 1e-6. Under these
  conditions on the data, the angles computed without rounding are those of the slice
  records.
\<close>

theorem partition_in_doubles:
  assumes "standardModel ar"
  shows "length (anglesR ar data) = length data \<and>
   (data \<noteq> [] \<longrightarrow> fst (anglesR ar data ! 0) = Fin (- 90)) \<and>
   (Suc k < length data \<longrightarrow> fst (anglesR ar data ! Suc k) = snd (anglesR ar data ! k)) \<and>
   (data \<noteq> [] \<longrightarrow> startAngle (slicesData data sz sel ! 0) = Fin (- 90)) \<and>
   (Suc k < length data \<longrightarrow>
      startAngle (slicesData data sz sel ! Suc k) = endAngle (slicesData data sz sel ! k)) \<and>
   (length data \<le> 10 ^ 6 \<and>
    (\<forall>p \<in> set data. isFinite (amount p) \<and> jge (amount p) (Fin 0)) \<and>
    isFinite (totalR ar data) \<and> jgt (totalR ar data) (Fin 0) \<longrightarrow>
      jle (jabs (jsub (spanSumR (anglesR ar data)) (Fin 360))) (Fin (1 / 10 ^ 6))) \<and>
   ((\<forall>p \<in> set data. isFinite (amount p) \<and> jge (amount p) (Fin 0)) \<and>
    isFinite (totalR exactArith data) \<and> jgt (totalR exactArith data) (Fin 0) \<longrightarrow>
      totalR exactArith data = totalAmount data \<and>
      anglesR exactArith data =
        map (\<lambda>s. (startAngle s, endAngle s)) (slicesData data sz sel))"
proof -
  have agree: "(\<forall>p \<in> set data. isFinite (amount p) \<and> jge (amount p) (Fin 0)) \<and>
      isFinite (totalR exactArith data) \<and> jgt (totalR exactArith data) (Fin 0) \<longrightarrow>
        totalR exactArith data = totalAmount data \<and>
        anglesR exactArith data =
          map (\<lambda>s. (startAngle s, endAngle s)) (slicesData data sz sel)"
    using exact_model_agrees[of data sz sel] by blast
  have shape: "length (anglesR ar data) = length data \<and>
      (data \<noteq> [] \<longrightarrow> fst (anglesR ar data ! 0) = Fin (- 90)) \<and>
      (Suc k < length data \<longrightarrow> fst (anglesR ar data ! Suc k) = snd (anglesR ar data ! k))"
    by (simp add: anglesR_def length_anglesFromR anglesFromR_start_hd anglesFromR_contiguous)
  have slices: "(data \<noteq> [] \<longrightarrow> startAngle (slicesData data sz sel ! 0) = Fin (- 90)) \<and>
      (Suc k < length data \<longrightarrow>
         startAngle (slicesData data sz sel ! Suc k) = endAngle (slicesData data sz sel ! k))"
    by (simp add: slicesData_def slicesFrom_start_hd slicesFrom_contiguous)
  have "jle (jabs (jsub (spanSumR (anglesR ar data)) (Fin 360))) (Fin (1 / 10 ^ 6))"
    if "length data \<le> 10 ^ 6" and "\<forall>p \<in> set data. isFinite (amount p) \<and> jge (amount p) (Fin 0)"
      and "isFinite (totalR ar data)" and "jgt (totalR ar data) (Fin 0)"
  proof -
    from span_sum_doubles[OF assms that] obtain d
      where "spanSumR (anglesR ar data) = Fin d" "\<bar>d - 360\<bar> \<le> 1 / 10 ^ 6" by blast
    then show ?thesis by (simp add: jle_def jsub_def)
  qed
  with shape slices agree show ?thesis by blast
qed

theorem partition_in_doubles_witness:
  "length [\<lparr>name = ''A'', amount = Fin 100, color = ''#f00''\<rparr>,
           \<lparr>name = ''B'', amount = Fin 300, color = ''#0f0''\<rparr>] \<le> 10 ^ 6 \<and>
   isFinite (Fin 100) \<and> jge (Fin 100) (Fin 0) \<and> isFinite (Fin 300) \<and> jge (Fin 300) (Fin 0) \<and>
   totalR exactArith [\<lparr>name = ''A'', amount = Fin 100, color = ''#f00''\<rparr>,
                      \<lparr>name = ''B'', amount = Fin 300, color = ''#0f0''\<rparr>] = Fin 400 \<and>
   anglesR exactArith [\<lparr>name = ''A'', amount = Fin 100, color = ''#f00''\<rparr>,
                       \<lparr>name = ''B'', amount = Fin 300, color = ''#0f0''\<rparr>] =
     [(Fin (- 90), Fin 0), (Fin 0, Fin 270)] \<and>
   map (\<lambda>s. (startAngle s, endAngle s))
     (slicesData [\<lparr>name = ''A'', amount = Fin 100, color = ''#f00''\<rparr>,
                  \<lparr>name = ''B'', amount = Fin 300, color = ''#0f0''\<rparr>] (Fin 240) None) =
     [(Fin (- 90), Fin 0), (Fin 0, Fin 270)] \<and>
   jle (jabs (jsub (spanSumR (anglesR exactArith
          [\<lparr>name = ''A'', amount = Fin 100, color = ''#f00''\<rparr>,
           \<lparr>name = ''B'', amount = Fin 300, color = ''#0f0''\<rparr>])) (Fin 360))) (Fin (1 / 10 ^ 6))"
  using partition_in_doubles[OF exactArith_standard,
      of "[\<lparr>name = ''A'', amount = Fin 100, color = ''#f00''\<rparr>,
           \<lparr>name = ''B'', amount = Fin 300, color = ''#0f0''\<rparr>]" 0 "Fin 240" None]
  by (simp add: anglesR_def totalR_def slicesData_def totalAmount_def exactArith_fields
        overflowTo_Fin Let_def)

text \<open>
  Without the condition on the total the spans need not add up to 360: two amounts of
  1e308 are finite and below the largest double, their sum exceeds it, so the total is
  \<^verbatim>\<open>Infinity\<close>, which is positive; each percentage is then
  \<^verbatim>\<open>1e308 / Infinity = 0\<close>, both slices run from -90 to -90, and the spans add up
  to 0. No operation on this input rounds, so the arithmetic that does not round
  computes what doubles compute.
\<close>

theorem partition_in_doubles_counterexample:
  "isFinite (Fin (10 ^ 308)) \<and> jge (Fin (10 ^ 308)) (Fin 0) \<and>
   overflowTo (10 ^ 308) = Fin (10 ^ 308) \<and>
   totalR exactArith [\<lparr>name = ''A'', amount = Fin (10 ^ 308), color = ''#f00''\<rparr>,
                      \<lparr>name = ''B'', amount = Fin (10 ^ 308), color = ''#0f0''\<rparr>] = PInf \<and>
   jgt (totalR exactArith [\<lparr>name = ''A'', amount = Fin (10 ^ 308), color = ''#f00''\<rparr>,
                           \<lparr>name = ''B'', amount = Fin (10 ^ 308), color = ''#0f0''\<rparr>]) (Fin 0) \<and>
   anglesR exactArith [\<lparr>name = ''A'', amount = Fin (10 ^ 308), color = ''#f00''\<rparr>,
                       \<lparr>name = ''B'', amount = Fin (10 ^ 308), color = ''#0f0''\<rparr>] =
     [(Fin (- 90), Fin (- 90)), (Fin (- 90), Fin (- 90))] \<and>
   spanSumR (anglesR exactArith [\<lparr>name = ''A'', amount = Fin (10 ^ 308), color = ''#f00''\<rparr>,
                                 \<lparr>name = ''B'', amount = Fin (10 ^ 308), color = ''#0f0''\<rparr>]) = Fin 0 \<and>
   \<not> jle (jabs (jsub (spanSumR (anglesR exactArith
            [\<lparr>name = ''A'', amount = Fin (10 ^ 308), color = ''#f00''\<rparr>,
             \<lparr>name = ''B'', amount = Fin (10 ^ 308), color = ''#0f0''\<rparr>])) (Fin 360))) (Fin (1 / 10 ^ 6))"
proof -
  have a: "(0::real) \<le> 10 ^ 308" "(10::real) ^ 308 \<le> maxDouble" "maxDouble < 10 ^ 308 + 10 ^ 308"
    by (simp_all add: maxDouble_def)
  have ov: "overflowTo (10 ^ 308) = Fin (10 ^ 308)"
    using a(1,2) by (rule overflowTo_in_range)
  note pair = overflowing_pair[OF a, of "''A''" "''#f00''" "''B''" "''#0f0''"]
  note tot = pair[THEN conjunct1] and ang = pair[THEN conjunct2]
  have fin: "isFinite (Fin (10 ^ 308))" by (simp only: isFinite.simps)
  have ge: "jge (Fin (10 ^ 308)) (Fin 0)" using a(1) by (simp only: jge.simps)
  have sp: "spanSumR [(Fin (- 90), Fin (- 90)), (Fin (- 90), Fin (- 90))] = Fin 0"
    by (simp add: spanSumR_def jsub_def)
  have far: "\<not> jle (jabs (jsub (Fin 0) (Fin 360))) (Fin (1 / 10 ^ 6))"
    by (simp add: jle_def jsub_def)
  have pos: "jgt PInf (Fin 0)" by simp
  show ?thesis
    unfolding ang tot sp by (intro conjI fin ge ov far pos refl)
qed

section \<open>Amounts that are not finite, and a zero total\<close>

lemma jadd_nonfinite: "\<not> isFinite a \<or> \<not> isFinite b \<Longrightarrow> \<not> isFinite (jadd a b)"
  by (cases a; cases b) simp_all

lemma jadd_NaN_right: "jadd a NaN = NaN"
  by (cases a) simp_all

lemma jdiv_NaN_right: "jdiv a NaN = NaN"
  by (cases a) simp_all

lemma jdiv_nonfinite: "\<not> isFinite a \<Longrightarrow> \<not> isFinite t \<Longrightarrow> jdiv a t = NaN"
  by (cases a; cases t) simp_all

lemma foldl_nonfinite_acc:
  "\<not> isFinite s \<Longrightarrow> \<not> isFinite (foldl (\<lambda>sum item. jadd sum (amount item)) s ps)"
  by (induction ps arbitrary: s) (simp_all add: jadd_nonfinite)

lemma foldl_nonfinite_amount:
  "k < length ps \<Longrightarrow> \<not> isFinite (amount (ps ! k)) \<Longrightarrow>
     \<not> isFinite (foldl (\<lambda>sum item. jadd sum (amount item)) s ps)"
proof (induction ps arbitrary: s k)
  case Nil
  then show ?case by simp
next
  case (Cons p ps)
  show ?case
  proof (cases k)
    case 0
    with Cons.prems have "\<not> isFinite (jadd s (amount p))" by (simp add: jadd_nonfinite)
    then show ?thesis using foldl_nonfinite_acc by simp
  next
    case (Suc m)
    with Cons.prems Cons.IH[of m "jadd s (amount p)"] show ?thesis by simp
  qed
qed

lemma foldl_NaN_acc: "foldl (\<lambda>sum item. jadd sum (amount item)) NaN ps = NaN"
  by (induction ps) simp_all

lemma foldl_NaN_amount:
  "k < length ps \<Longrightarrow> amount (ps ! k) = NaN \<Longrightarrow>
     foldl (\<lambda>sum item. jadd sum (amount item)) s ps = NaN"
proof (induction ps arbitrary: s k)
  case Nil
  then show ?case by simp
next
  case (Cons p ps)
  show ?case
  proof (cases k)
    case 0
    with Cons.prems show ?thesis by (simp add: jadd_NaN_right foldl_NaN_acc)
  next
    case (Suc m)
    with Cons.prems Cons.IH[of m "jadd s (amount p)"] show ?thesis by simp
  qed
qed

lemma endAngle_NaN_start:
  "j < length ps \<Longrightarrow> endAngle (slicesFrom sz tot sel i NaN ps ! j) = NaN"
proof (induction ps arbitrary: i j)
  case Nil
  then show ?case by simp
next
  case (Cons p ps)
  then show ?case by (cases j) (simp_all add: Let_def)
qed

lemma endAngle_NaN_total:
  "j < length ps \<Longrightarrow> endAngle (slicesFrom sz NaN sel i c ps ! j) = NaN"
proof (induction ps arbitrary: i j c)
  case Nil
  then show ?case by simp
next
  case (Cons p ps)
  then show ?case by (cases j) (simp_all add: Let_def jdiv_NaN_right jadd_NaN_right)
qed

lemma endAngle_after_nonfinite:
  "\<not> isFinite tot \<Longrightarrow> k < length ps \<Longrightarrow> \<not> isFinite (amount (ps ! k)) \<Longrightarrow>
     k \<le> j \<Longrightarrow> j < length ps \<Longrightarrow>
     endAngle (slicesFrom sz tot sel i c ps ! j) = NaN"
proof (induction ps arbitrary: i c k j)
  case Nil
  then show ?case by simp
next
  case (Cons p ps)
  show ?case
  proof (cases k)
    case 0
    with Cons.prems have d: "jdiv (amount p) tot = NaN" by (simp add: jdiv_nonfinite)
    show ?thesis
    proof (cases j)
      case 0
      with d show ?thesis by (simp add: Let_def jadd_NaN_right)
    next
      case (Suc j')
      with Cons.prems d show ?thesis
        by (simp add: Let_def jadd_NaN_right endAngle_NaN_start)
    qed
  next
    case (Suc k')
    with Cons.prems obtain j' where j': "j = Suc j'" by (cases j) auto
    with Suc Cons.prems Cons.IH[of k' j' "Suc i"] show ?thesis by (simp add: Let_def)
  qed
qed

text \<open>
  Claim C2, as the component has it. Amounts are used as they come. When the amount
  at position \<open>k\<close> is not finite, the total is not finite either, and the end angle of
  slice \<open>k\<close> and of every slice after it is \<^verbatim>\<open>NaN\<close>. When that amount is
  \<^verbatim>\<open>NaN\<close>, the total is \<^verbatim>\<open>NaN\<close> and the end angle of every slice is
  \<^verbatim>\<open>NaN\<close>.
\<close>

theorem nonfinite_amount_propagates:
  assumes "k < length data" and "\<not> isFinite (amount (data ! k))"
  shows "\<not> isFinite (totalAmount data) \<and>
         (\<forall>j. k \<le> j \<and> j < length data \<longrightarrow> endAngle (slicesData data sz sel ! j) = NaN) \<and>
         (amount (data ! k) = NaN \<longrightarrow>
            totalAmount data = NaN \<and>
            (\<forall>j. j < length data \<longrightarrow> endAngle (slicesData data sz sel ! j) = NaN))"
proof -
  have tot: "\<not> isFinite (totalAmount data)"
    unfolding totalAmount_def using assms by (rule foldl_nonfinite_amount)
  have later: "\<forall>j. k \<le> j \<and> j < length data \<longrightarrow> endAngle (slicesData data sz sel ! j) = NaN"
    unfolding slicesData_def using endAngle_after_nonfinite[OF tot assms] by blast
  have "amount (data ! k) = NaN \<Longrightarrow> totalAmount data = NaN"
    unfolding totalAmount_def using assms(1) by (rule foldl_NaN_amount)
  then have nan: "amount (data ! k) = NaN \<longrightarrow>
      totalAmount data = NaN \<and>
      (\<forall>j. j < length data \<longrightarrow> endAngle (slicesData data sz sel ! j) = NaN)"
    by (simp add: slicesData_def endAngle_NaN_total)
  from tot later nan show ?thesis by blast
qed

theorem nonfinite_amount_propagates_witness:
  "(1::nat) < length [\<lparr>name = ''A'', amount = Fin 100, color = ''#f00''\<rparr>,
                      \<lparr>name = ''B'', amount = NaN, color = ''#0f0''\<rparr>,
                      \<lparr>name = ''C'', amount = Fin 300, color = ''#00f''\<rparr>] \<and>
   \<not> isFinite (amount ([\<lparr>name = ''A'', amount = Fin 100, color = ''#f00''\<rparr>,
                      \<lparr>name = ''B'', amount = NaN, color = ''#0f0''\<rparr>,
                      \<lparr>name = ''C'', amount = Fin 300, color = ''#00f''\<rparr>] ! 1)) \<and>
   totalAmount [\<lparr>name = ''A'', amount = Fin 100, color = ''#f00''\<rparr>,
                \<lparr>name = ''B'', amount = NaN, color = ''#0f0''\<rparr>,
                \<lparr>name = ''C'', amount = Fin 300, color = ''#00f''\<rparr>] = NaN \<and>
   map endAngle (slicesData [\<lparr>name = ''A'', amount = Fin 100, color = ''#f00''\<rparr>,
                             \<lparr>name = ''B'', amount = NaN, color = ''#0f0''\<rparr>,
                             \<lparr>name = ''C'', amount = Fin 300, color = ''#00f''\<rparr>] (Fin 240) None) =
     [NaN, NaN, NaN]"
  using nonfinite_amount_propagates[of 1 "[\<lparr>name = ''A'', amount = Fin 100, color = ''#f00''\<rparr>,
                      \<lparr>name = ''B'', amount = NaN, color = ''#0f0''\<rparr>,
                      \<lparr>name = ''C'', amount = Fin 300, color = ''#00f''\<rparr>]" "Fin 240" None]
  by (simp add: totalAmount_def slicesData_def Let_def)

text \<open>
  A \<^verbatim>\<open>NaN\<close> amount is not treated as zero: with the amounts \<^verbatim>\<open>NaN\<close> and 100
  the total is \<^verbatim>\<open>NaN\<close> and the second slice runs from \<^verbatim>\<open>NaN\<close> to
  \<^verbatim>\<open>NaN\<close>, whereas with the amounts 0 and 100 the total is 100 and the second slice
  runs from -90 to 270.
\<close>

theorem nan_as_zero_counterexample:
  "totalAmount [\<lparr>name = ''A'', amount = NaN, color = ''#f00''\<rparr>,
                \<lparr>name = ''B'', amount = Fin 100, color = ''#0f0''\<rparr>] = NaN \<and>
   totalAmount [\<lparr>name = ''A'', amount = Fin 0, color = ''#f00''\<rparr>,
                \<lparr>name = ''B'', amount = Fin 100, color = ''#0f0''\<rparr>] = Fin 100 \<and>
   map startAngle (slicesData [\<lparr>name = ''A'', amount = NaN, color = ''#f00''\<rparr>,
                               \<lparr>name = ''B'', amount = Fin 100, color = ''#0f0''\<rparr>] (Fin 240) None) =
     [Fin (- 90), NaN] \<and>
   map endAngle (slicesData [\<lparr>name = ''A'', amount = NaN, color = ''#f00''\<rparr>,
                             \<lparr>name = ''B'', amount = Fin 100, color = ''#0f0''\<rparr>] (Fin 240) None) =
     [NaN, NaN] \<and>
   map startAngle (slicesData [\<lparr>name = ''A'', amount = Fin 0, color = ''#f00''\<rparr>,
                               \<lparr>name = ''B'', amount = Fin 100, color = ''#0f0''\<rparr>] (Fin 240) None) =
     [Fin (- 90), Fin (- 90)] \<and>
   map endAngle (slicesData [\<lparr>name = ''A'', amount = Fin 0, color = ''#f00''\<rparr>,
                             \<lparr>name = ''B'', amount = Fin 100, color = ''#0f0''\<rparr>] (Fin 240) None) =
     [Fin (- 90), Fin 270]"
  by (simp add: totalAmount_def slicesData_def Let_def)

text \<open>
  Claim C1. The component has no test on the total: \<^verbatim>\<open>data.map\<close> yields one
  slice per item. For two items of amount 0 the total is 0, which is not positive, and
  there are still two slices; each percentage is \<^verbatim>\<open>0 / 0\<close>, so the first slice
  ends at \<^verbatim>\<open>NaN\<close> and the second starts and ends there. The empty input does
  give the empty list.
\<close>

theorem zero_total_segments:
  "totalAmount [\<lparr>name = ''A'', amount = Fin 0, color = ''#f00''\<rparr>,
                \<lparr>name = ''B'', amount = Fin 0, color = ''#0f0''\<rparr>] = Fin 0 \<and>
   \<not> jgt (totalAmount [\<lparr>name = ''A'', amount = Fin 0, color = ''#f00''\<rparr>,
                       \<lparr>name = ''B'', amount = Fin 0, color = ''#0f0''\<rparr>]) (Fin 0) \<and>
   length (slicesData [\<lparr>name = ''A'', amount = Fin 0, color = ''#f00''\<rparr>,
                       \<lparr>name = ''B'', amount = Fin 0, color = ''#0f0''\<rparr>] (Fin 240) None) = 2 \<and>
   map startAngle (slicesData [\<lparr>name = ''A'', amount = Fin 0, color = ''#f00''\<rparr>,
                               \<lparr>name = ''B'', amount = Fin 0, color = ''#0f0''\<rparr>] (Fin 240) None) =
     [Fin (- 90), NaN] \<and>
   map endAngle (slicesData [\<lparr>name = ''A'', amount = Fin 0, color = ''#f00''\<rparr>,
                             \<lparr>name = ''B'', amount = Fin 0, color = ''#0f0''\<rparr>] (Fin 240) None) =
     [NaN, NaN] \<and>
   slicesData [] (Fin 240) None = []"
  by (simp add: totalAmount_def slicesData_def Let_def)

end
